theory Spec2Isabelle
  imports Main
begin

section \<open>JavaScript values\<close>

text \<open>
  The helper in \<^verbatim>\<open>api-config.js\<close> handles whatever the providers send back, so payloads,
  filters and request options are values of one type of JavaScript data: the values that
  \<^verbatim>\<open>response.json()\<close> can produce, and \<^verbatim>\<open>undefined\<close>.

  \<^item> A string is its sequence of code units; the model has the code units below 256.
  \<^item> \<open>Num n\<close> is the Number whose value is the integer \<open>n\<close>; numbers with a fractional
    part are outside the model (nothing in the helper computes with them). The conversions
    to text below write \<open>n\<close> with all its decimal digits, which is what JavaScript writes
    for the safe integers, those of magnitude below \<open>2 ^ 53\<close>; what depends on the text of
    a number is stated for safe integers.
  \<^item> \<open>Obj kvs\<close> lists the own properties of a plain object in property order, each key once.
\<close>

datatype jsval =
    Undefined
  | Null
  | Bool bool
  | Num int
  | Str string
  | Arr "jsval list"
  | Obj "(string \<times> jsval) list"

text \<open>What the source can throw or be rejected with.\<close>

datatype error =
    TypeError
  | HTTPError int
  | NetworkError
  | SyntaxError

text \<open>Truthiness, as \<^verbatim>\<open>if (v)\<close>, \<^verbatim>\<open>!v\<close>, \<^verbatim>\<open>a && b\<close> and \<^verbatim>\<open>a || b\<close> test it.\<close>

fun truthy :: "jsval \<Rightarrow> bool" where
  "truthy Undefined = False"
| "truthy Null = False"
| "truthy (Bool b) = b"
| "truthy (Num n) = (n \<noteq> 0)"
| "truthy (Str s) = (s \<noteq> [])"
| "truthy (Arr xs) = True"
| "truthy (Obj kvs) = True"

definition js_or :: "jsval \<Rightarrow> jsval \<Rightarrow> jsval" where
  "js_or a b = (if truthy a then a else b)"

text \<open>
  Reading a property \<^verbatim>\<open>v.name\<close>. It throws on \<^verbatim>\<open>undefined\<close> and \<^verbatim>\<open>null\<close>. The names read
  through \<open>get_prop\<close> are \<^verbatim>\<open>opportunities\<close>, \<^verbatim>\<open>title\<close>, \<^verbatim>\<open>organization\<close>, \<^verbatim>\<open>length\<close>,
  \<^verbatim>\<open>lat\<close>, \<^verbatim>\<open>lon\<close>, \<^verbatim>\<open>headers\<close>, \<^verbatim>\<open>contents\<close>, \<^verbatim>\<open>distance\<close>, \<^verbatim>\<open>category\<close> and the
  selector names of the scraper. No prototype defines any of them, apart from the
  \<^verbatim>\<open>length\<close> of strings and arrays, and \<^verbatim>\<open>link\<close>, a method of strings: the scraper reads
  it from its selectors, and selectors that are a string give no title and so an empty
  result, in the source as here.
\<close>

fun get_prop :: "jsval \<Rightarrow> string \<Rightarrow> error + jsval" where
  "get_prop Undefined k = Inl TypeError"
| "get_prop Null k = Inl TypeError"
| "get_prop (Bool b) k = Inr Undefined"
| "get_prop (Num n) k = Inr Undefined"
| "get_prop (Str s) k = Inr (if k = ''length'' then Num (int (length s)) else Undefined)"
| "get_prop (Arr xs) k = Inr (if k = ''length'' then Num (int (length xs)) else Undefined)"
| "get_prop (Obj kvs) k = Inr (case map_of kvs k of Some v \<Rightarrow> v | None \<Rightarrow> Undefined)"

text \<open>Reading \<^verbatim>\<open>v[0]\<close>.\<close>

fun get_first :: "jsval \<Rightarrow> error + jsval" where
  "get_first Undefined = Inl TypeError"
| "get_first Null = Inl TypeError"
| "get_first (Bool b) = Inr Undefined"
| "get_first (Num n) = Inr Undefined"
| "get_first (Str s) = Inr (case s of [] \<Rightarrow> Undefined | c # _ \<Rightarrow> Str [c])"
| "get_first (Arr xs) = Inr (case xs of [] \<Rightarrow> Undefined | x # _ \<Rightarrow> x)"
| "get_first (Obj kvs) = Inr (case map_of kvs ''0'' of Some v \<Rightarrow> v | None \<Rightarrow> Undefined)"

subsection \<open>Conversion to string\<close>

definition digit_char :: "nat \<Rightarrow> char" where
  "digit_char d = ''0123456789'' ! d"

function dec :: "nat \<Rightarrow> string" where
  "dec n = (if n < 10 then [digit_char n] else dec (n div 10) @ [digit_char (n mod 10)])"
  by pat_completeness auto
termination
  by (relation "measure id") auto

declare dec.simps [simp del]

definition show_int :: "int \<Rightarrow> string" where
  "show_int i = (if i < 0 then CHR ''-'' # dec (nat (- i)) else dec (nat i))"

text \<open>
  \<^verbatim>\<open>ToString\<close>, as a template literal applies it. An array is the join of its elements with
  commas, \<^verbatim>\<open>undefined\<close> and \<^verbatim>\<open>null\<close> elements giving the empty string. A plain object is
  \<^verbatim>\<open>[object Object]\<close>; when it has an own property \<^verbatim>\<open>toString\<close> (data, so not callable)
  no conversion applies and a TypeError is thrown.
\<close>

fun toString :: "jsval \<Rightarrow> error + string"
  and joinElems :: "jsval list \<Rightarrow> error + string" where
  "toString Undefined = Inr ''undefined''"
| "toString Null = Inr ''null''"
| "toString (Bool b) = Inr (if b then ''true'' else ''false'')"
| "toString (Num n) = Inr (show_int n)"
| "toString (Str s) = Inr s"
| "toString (Arr xs) = joinElems xs"
| "toString (Obj kvs) =
     (if ''toString'' \<in> fst ` set kvs then Inl TypeError else Inr ''[object Object]'')"
| "joinElems [] = Inr []"
| "joinElems (x # xs) =
     (case (if x = Undefined \<or> x = Null then Inr [] else toString x) of
        Inl e \<Rightarrow> Inl e
      | Inr s \<Rightarrow>
          (if xs = [] then Inr s
           else (case joinElems xs of Inl e \<Rightarrow> Inl e | Inr t \<Rightarrow> Inr (s @ '','' @ t))))"

section \<open>Category mapping\<close>

text \<open>
  \<^verbatim>\<open>mapping[category]\<close> reads a property of an object literal: an own property when the
  key names one, otherwise whatever the prototype chain holds under that key. The chain of
  an object literal is \<^verbatim>\<open>Object.prototype\<close>, whose property names are listed here; each is
  a function, and \<^verbatim>\<open>__proto__\<close> reads as the prototype object itself.
\<close>

datatype lookup = Val jsval | Inherited string

definition object_prototype_names :: "string list" where
  "object_prototype_names =
     [''constructor'', ''__defineGetter__'', ''__defineSetter__'', ''hasOwnProperty'',
      ''__lookupGetter__'', ''__lookupSetter__'', ''isPrototypeOf'', ''propertyIsEnumerable'',
      ''toString'', ''valueOf'', ''__proto__'', ''toLocaleString'']"

definition mapping :: "(string \<times> int) list" where
  "mapping =
     [(''education'', 1), (''environment'', 2), (''health'', 3), (''community'', 4),
      (''seniors'', 5), (''animals'', 6), (''disaster'', 7), (''homeless'', 8),
      (''youth'', 9), (''arts'', 10)]"

definition mapCategoryToJustServe :: "jsval \<Rightarrow> error + lookup" where
  "mapCategoryToJustServe category =
     (case toString category of
        Inl e \<Rightarrow> Inl e
      | Inr k \<Rightarrow>
          (case map_of mapping k of
             Some n \<Rightarrow> Inr (Val (Num n))
           | None \<Rightarrow>
               if k \<in> set object_prototype_names then Inr (Inherited k)
               else Inr (Val (Str []))))"


section \<open>The platform\<close>

text \<open>
  Built-in functions of the JavaScript platform that the helper calls and whose results no
  property below depends on. They are parameters of the model:
  \<^item> \<open>urlencode\<close>: the query string that \<^verbatim>\<open>URLSearchParams\<close> serialises from its
    name/value pairs;
  \<^item> \<open>assign\<close>: the own properties, in property order, of the object literal
    \<^verbatim>\<open>{ ...literal, ...source }\<close>;
  \<^item> \<open>nativeToString\<close>: the text of a member of \<^verbatim>\<open>Object.prototype\<close> converted to string;
  \<^item> \<open>parseFloat\<close>: the number that \<^verbatim>\<open>parseFloat\<close> reads from a string (the type \<open>'f\<close>
    stands for the floating-point numbers);
  \<^item> \<open>positive\<close>: whether the number a string converts to is greater than zero.
\<close>

record 'f platform =
  urlencode :: "(string \<times> string) list \<Rightarrow> string"
  assign :: "(string \<times> lookup) list \<Rightarrow> jsval \<Rightarrow> (string \<times> lookup) list"
  nativeToString :: "string \<Rightarrow> string"
  parseFloat :: "string \<Rightarrow> 'f"
  positive :: "string \<Rightarrow> bool"

text \<open>The environment variables read into \<^verbatim>\<open>API_CONFIG\<close>; an unset variable is \<^verbatim>\<open>undefined\<close>.\<close>

record config =
  volunteerMatchKey :: "string option"
  justServeKey :: "string option"
  unitedWayKey :: "string option"

definition volunteerMatch_baseUrl :: string where
  "volunteerMatch_baseUrl = ''https://api.volunteermatch.org/search''"

definition justServe_baseUrl :: string where
  "justServe_baseUrl = ''https://www.justserve.org/api''"

definition unitedWay_baseUrl :: string where
  "unitedWay_baseUrl = ''https://api.unitedway.org''"

definition nominatim :: string where
  "nominatim = ''https://nominatim.openstreetmap.org/search''"

section \<open>JSON.stringify\<close>

definition hex_char :: "nat \<Rightarrow> char" where
  "hex_char d = ''0123456789abcdef'' ! d"

text \<open>
  The escape of one code unit inside a JSON string: the double quote (0x22), the backslash
  (0x5C), the five control characters with a short escape, and the other code units below
  0x20, written \<^verbatim>\<open>\u00XX\<close>.
\<close>

definition escape_char :: "char \<Rightarrow> string" where
  "escape_char c =
     (if c = CHR 0x22 then [CHR 0x5C, CHR 0x22]
      else if c = CHR 0x5C then [CHR 0x5C, CHR 0x5C]
      else if c = CHR 0x08 then [CHR 0x5C, CHR ''b'']
      else if c = CHR 0x09 then [CHR 0x5C, CHR ''t'']
      else if c = CHR 0x0A then [CHR 0x5C, CHR ''n'']
      else if c = CHR 0x0C then [CHR 0x5C, CHR ''f'']
      else if c = CHR 0x0D then [CHR 0x5C, CHR ''r'']
      else if (of_char c :: nat) < 32
        then [CHR 0x5C, CHR ''u'', CHR ''0'', CHR ''0'',
              hex_char ((of_char c :: nat) div 16), hex_char ((of_char c :: nat) mod 16)]
      else [c])"

definition quote :: "string \<Rightarrow> string" where
  "quote s = CHR 0x22 # concat (map escape_char s) @ [CHR 0x22]"

fun commas :: "string list \<Rightarrow> string" where
  "commas [] = []"
| "commas [s] = s"
| "commas (s # t # ts) = s @ CHR '','' # commas (t # ts)"

text \<open>
  \<^verbatim>\<open>JSON.stringify(v)\<close>; \<open>None\<close> is its result \<^verbatim>\<open>undefined\<close>. A property whose value
  serialises to \<^verbatim>\<open>undefined\<close> is left out of its object; such an element of an array is
  written \<^verbatim>\<open>null\<close>.
\<close>

fun stringify :: "jsval \<Rightarrow> string option"
  and stringify_elems :: "jsval list \<Rightarrow> string list"
  and stringify_props :: "(string \<times> jsval) list \<Rightarrow> string list" where
  "stringify Undefined = None"
| "stringify Null = Some ''null''"
| "stringify (Bool b) = Some (if b then ''true'' else ''false'')"
| "stringify (Num n) = Some (show_int n)"
| "stringify (Str s) = Some (quote s)"
| "stringify (Arr xs) = Some (CHR ''['' # commas (stringify_elems xs) @ '']'')"
| "stringify (Obj kvs) = Some (CHR ''{'' # commas (stringify_props kvs) @ ''}'')"
| "stringify_elems [] = []"
| "stringify_elems (x # xs) =
     (case stringify x of None \<Rightarrow> ''null'' | Some s \<Rightarrow> s) # stringify_elems xs"
| "stringify_props [] = []"
| "stringify_props ((k, v) # kvs) =
     (case stringify v of
        None \<Rightarrow> stringify_props kvs
      | Some s \<Rightarrow> (quote k @ CHR '':'' # s) # stringify_props kvs)"

section \<open>The cached call\<close>

record cache_entry =
  data :: jsval
  timestamp :: int

text \<open>
  The state of a \<^verbatim>\<open>VolunteerAPI\<close> instance is its cache. \<open>fetchLog\<close> records, in order,
  the URL of every call of \<^verbatim>\<open>fetch\<close> that \<^verbatim>\<open>makeAPICall\<close> has made.
\<close>

record api_state =
  cache :: "string \<Rightarrow> cache_entry option"
  fetchLog :: "string list"

definition cacheTimeout :: int where
  "cacheTimeout = 10 * 60 * 1000"

text \<open>
  What \<^verbatim>\<open>fetch\<close> does when it is called: the promise is rejected, or a response arrives
  with a status and a body; \<open>None\<close> is a body that \<^verbatim>\<open>response.json()\<close> cannot parse.
\<close>

datatype fetch_result = Rejected | Response int "jsval option"

text \<open>
  What the world does during one call: the readings of \<^verbatim>\<open>Date.now()\<close> at the cache check
  and when the result is stored, and the outcome of \<^verbatim>\<open>fetch\<close> should it be called.
\<close>

record call_env =
  now_check :: int
  fetched :: fetch_result
  now_store :: int

definition default_arg :: "jsval \<Rightarrow> jsval" where
  "default_arg v = (if v = Undefined then Obj [] else v)"

definition cacheKey :: "string \<Rightarrow> jsval \<Rightarrow> string" where
  "cacheKey url options =
     url @ (case stringify (default_arg options) of None \<Rightarrow> ''undefined'' | Some s \<Rightarrow> s)"

definition response_ok :: "int \<Rightarrow> bool" where
  "response_ok status = (200 \<le> status \<and> status \<le> 299)"

definition live :: "api_state \<Rightarrow> string \<Rightarrow> int \<Rightarrow> bool" where
  "live st key now =
     (case cache st key of None \<Rightarrow> False | Some cached \<Rightarrow> now - timestamp cached < cacheTimeout)"

definition makeAPICall ::
  "call_env \<Rightarrow> api_state \<Rightarrow> string \<Rightarrow> jsval \<Rightarrow> (error + jsval) \<times> api_state" where
  "makeAPICall env st url options =
     (let key = cacheKey url options in
      case (case cache st key of
              None \<Rightarrow> None
            | Some cached \<Rightarrow>
                if now_check env - timestamp cached < cacheTimeout then Some (data cached)
                else None) of
        Some d \<Rightarrow> (Inr d, st)
      | None \<Rightarrow>
          (case get_prop (default_arg options) ''headers'' of
             Inl e \<Rightarrow> (Inl e, st)
           | Inr headers \<Rightarrow>
               (let st1 = st\<lparr>fetchLog := fetchLog st @ [url]\<rparr> in
                case fetched env of
                  Rejected \<Rightarrow> (Inl NetworkError, st1)
                | Response status body \<Rightarrow>
                    if \<not> response_ok status then (Inl (HTTPError status), st1)
                    else (case body of
                            None \<Rightarrow> (Inl SyntaxError, st1)
                          | Some d \<Rightarrow>
                              (Inr d,
                               st1\<lparr>cache := (cache st1)
                                  (key \<mapsto> \<lparr>data = d, timestamp = now_store env\<rparr>)\<rparr>)))))"

text \<open>
  \<^verbatim>\<open>makeAPICall\<close> awaits \<^verbatim>\<open>fetch\<close> and \<^verbatim>\<open>response.json()\<close>, so other calls can run between
  its cache check and its \<^verbatim>\<open>cache.set\<close>. These are the two parts of the call. The part
  before the first \<^verbatim>\<open>await\<close> returns or throws at once, or calls \<^verbatim>\<open>fetch\<close> and waits with
  the key it has computed; the part after the \<^verbatim>\<open>await\<close>s takes the outcome of \<^verbatim>\<open>fetch\<close> and
  the state as it is by then. \<open>makeAPICall\<close> above is the one followed by the other, with
  no other call in between.
\<close>

datatype started = Returned "error + jsval" | Awaiting string

definition makeAPICall_start :: "int \<Rightarrow> api_state \<Rightarrow> string \<Rightarrow> jsval \<Rightarrow> started \<times> api_state" where
  "makeAPICall_start now st url options =
     (let key = cacheKey url options in
      case (case cache st key of
              None \<Rightarrow> None
            | Some cached \<Rightarrow>
                if now - timestamp cached < cacheTimeout then Some (data cached) else None) of
        Some d \<Rightarrow> (Returned (Inr d), st)
      | None \<Rightarrow>
          (case get_prop (default_arg options) ''headers'' of
             Inl e \<Rightarrow> (Returned (Inl e), st)
           | Inr headers \<Rightarrow> (Awaiting key, st\<lparr>fetchLog := fetchLog st @ [url]\<rparr>)))"

definition makeAPICall_finish ::
  "fetch_result \<Rightarrow> int \<Rightarrow> string \<Rightarrow> api_state \<Rightarrow> (error + jsval) \<times> api_state" where
  "makeAPICall_finish outcome now key st =
     (case outcome of
        Rejected \<Rightarrow> (Inl NetworkError, st)
      | Response status body \<Rightarrow>
          if \<not> response_ok status then (Inl (HTTPError status), st)
          else (case body of
                  None \<Rightarrow> (Inl SyntaxError, st)
                | Some d \<Rightarrow>
                    (Inr d, st\<lparr>cache := (cache st)(key \<mapsto> \<lparr>data = d, timestamp = now\<rparr>)\<rparr>)))"

section \<open>Query strings\<close>

fun lookup_string :: "'f platform \<Rightarrow> lookup \<Rightarrow> error + string" where
  "lookup_string pf (Val v) = toString v"
| "lookup_string pf (Inherited name) = Inr (nativeToString pf name)"

text \<open>\<^verbatim>\<open>new URLSearchParams(init)\<close> converts the value of each property to a string, in order.\<close>

fun param_strings :: "'f platform \<Rightarrow> (string \<times> lookup) list \<Rightarrow> error + (string \<times> string) list" where
  "param_strings pf [] = Inr []"
| "param_strings pf ((k, v) # kvs) =
     (case lookup_string pf v of
        Inl e \<Rightarrow> Inl e
      | Inr s \<Rightarrow>
          (case param_strings pf kvs of Inl e \<Rightarrow> Inl e | Inr ps \<Rightarrow> Inr ((k, s) # ps)))"

definition query :: "'f platform \<Rightarrow> (string \<times> lookup) list \<Rightarrow> error + string" where
  "query pf init =
     (case param_strings pf init of Inl e \<Rightarrow> Inl e | Inr ps \<Rightarrow> Inr (urlencode pf ps))"

section \<open>Helper functions\<close>

definition is_digit :: "char \<Rightarrow> bool" where
  "is_digit c = (c \<in> set ''0123456789'')"

definition is_word :: "char \<Rightarrow> bool" where
  "is_word c =
     (c \<in> set ''abcdefghijklmnopqrstuvwxyzABCDEFGHIJKLMNOPQRSTUVWXYZ0123456789_'')"

text \<open>
  The leftmost match of \<^verbatim>\<open>/\b\d{5}\b/\<close>: five digits with no word character before or
  after them. \<open>prev\<close> tells whether the character before the position is a word character.
\<close>

fun zipMatch :: "bool \<Rightarrow> string \<Rightarrow> string option" where
  "zipMatch prev [] = None"
| "zipMatch prev (c # cs) =
     (if \<not> prev \<and> 5 \<le> length (c # cs) \<and> list_all is_digit (take 5 (c # cs))
         \<and> (case drop 5 (c # cs) of [] \<Rightarrow> True | d # _ \<Rightarrow> \<not> is_word d)
      then Some (take 5 (c # cs))
      else zipMatch (is_word c) cs)"

text \<open>\<^verbatim>\<open>location.match\<close> is a function only when \<^verbatim>\<open>location\<close> is a string.\<close>

fun extractZipCode :: "jsval \<Rightarrow> error + string" where
  "extractZipCode (Str s) =
     Inr (case zipMatch False s of Some z \<Rightarrow> z | None \<Rightarrow> ''22201'')"
| "extractZipCode v = Inl TypeError"

definition fallbackOpportunity :: "jsval \<Rightarrow> jsval \<Rightarrow> jsval" where
  "fallbackOpportunity location category =
     Obj [(''id'', Str ''fallback-1''),
          (''title'', Str ''Community Cleanup Event''),
          (''organization'', Str ''Local Environmental Group''),
          (''category'', js_or category (Str ''environment'')),
          (''description'', Str ''Help clean up local parks and waterways.''),
          (''date'', Str ''This Weekend''),
          (''time'', Str ''9:00 AM - 1:00 PM''),
          (''location'', location),
          (''skills'', Str ''None required''),
          (''contact'', Str ''info@localenv.org'')]"

definition getFallbackData :: "jsval \<Rightarrow> jsval \<Rightarrow> error + jsval" where
  "getFallbackData location filters =
     (case get_prop filters ''category'' of
        Inl e \<Rightarrow> Inl e
      | Inr category \<Rightarrow>
          Inr (Obj [(''opportunities'', Arr [fallbackOpportunity location category])]))"

section \<open>The three sources\<close>

text \<open>
  Each search is an \<^verbatim>\<open>async\<close> function: the result \<open>Inl e\<close> is a promise rejected with \<open>e\<close>,
  \<open>Inr v\<close> a promise fulfilled with \<open>v\<close>. What is thrown before the \<^verbatim>\<open>try\<close> rejects the
  promise; what \<^verbatim>\<open>makeAPICall\<close> throws is caught and replaced by the fallback data.
\<close>

definition bearer :: "string option \<Rightarrow> jsval" where
  "bearer apiKey =
     Str (''Bearer '' @ (case apiKey of None \<Rightarrow> ''undefined'' | Some k \<Rightarrow> k))"

definition fromEnv :: "string option \<Rightarrow> jsval" where
  "fromEnv apiKey = (case apiKey of None \<Rightarrow> Undefined | Some k \<Rightarrow> Str k)"

text \<open>The \<^verbatim>\<open>try\<close>/\<^verbatim>\<open>catch\<close> that ends each of the three searches.\<close>

definition callOrFallback ::
  "call_env \<Rightarrow> api_state \<Rightarrow> string \<Rightarrow> jsval \<Rightarrow> jsval \<Rightarrow> jsval \<Rightarrow> (error + jsval) \<times> api_state" where
  "callOrFallback env st url options location filters =
     (case makeAPICall env st url options of
        (Inr d, st') \<Rightarrow> (Inr d, st')
      | (Inl e, st') \<Rightarrow> (getFallbackData location filters, st'))"

definition volunteerMatchUrl :: "'f platform \<Rightarrow> jsval \<Rightarrow> jsval \<Rightarrow> error + string" where
  "volunteerMatchUrl pf location filters =
     (case get_prop filters ''distance'' of
        Inl e \<Rightarrow> Inl e
      | Inr distance \<Rightarrow>
     (case get_prop filters ''category'' of
        Inl e \<Rightarrow> Inl e
      | Inr category \<Rightarrow>
     (case query pf (assign pf
             [(''location'', Val location),
              (''radius'', Val (js_or distance (Num 25))),
              (''category'', Val (js_or category (Str []))),
              (''resultsPerPage'', Val (Num 20))] filters) of
        Inl e \<Rightarrow> Inl e
      | Inr params \<Rightarrow> Inr (volunteerMatch_baseUrl @ ''?'' @ params))))"

definition volunteerMatchOptions :: "config \<Rightarrow> jsval" where
  "volunteerMatchOptions cfg =
     Obj [(''headers'', Obj [(''Authorization'', bearer (volunteerMatchKey cfg))])]"

definition searchVolunteerMatch ::
  "'f platform \<Rightarrow> config \<Rightarrow> call_env \<Rightarrow> api_state \<Rightarrow> jsval \<Rightarrow> jsval
     \<Rightarrow> (error + jsval) \<times> api_state" where
  "searchVolunteerMatch pf cfg env st location filters0 =
     (let filters = default_arg filters0 in
      case volunteerMatchUrl pf location filters of
        Inl e \<Rightarrow> (Inl e, st)
      | Inr url \<Rightarrow>
          callOrFallback env st url (volunteerMatchOptions cfg) location filters)"

definition justServeUrl :: "'f platform \<Rightarrow> jsval \<Rightarrow> jsval \<Rightarrow> error + string" where
  "justServeUrl pf location filters =
     (case extractZipCode location of
        Inl e \<Rightarrow> Inl e
      | Inr zipCode \<Rightarrow>
     (case get_prop filters ''distance'' of
        Inl e \<Rightarrow> Inl e
      | Inr distance \<Rightarrow>
     (case get_prop filters ''category'' of
        Inl e \<Rightarrow> Inl e
      | Inr category \<Rightarrow>
     (case mapCategoryToJustServe category of
        Inl e \<Rightarrow> Inl e
      | Inr categoryId \<Rightarrow>
     (case query pf (assign pf
             [(''zipCode'', Val (Str zipCode)),
              (''miles'', Val (js_or distance (Num 25))),
              (''categoryId'', categoryId)] filters) of
        Inl e \<Rightarrow> Inl e
      | Inr params \<Rightarrow> Inr (justServe_baseUrl @ ''/opportunities?'' @ params))))))"

definition justServeOptions :: "config \<Rightarrow> jsval" where
  "justServeOptions cfg =
     Obj [(''headers'', Obj [(''X-API-Key'', fromEnv (justServeKey cfg))])]"

definition searchJustServe ::
  "'f platform \<Rightarrow> config \<Rightarrow> call_env \<Rightarrow> api_state \<Rightarrow> jsval \<Rightarrow> jsval
     \<Rightarrow> (error + jsval) \<times> api_state" where
  "searchJustServe pf cfg env st location filters0 =
     (let filters = default_arg filters0 in
      case justServeUrl pf location filters of
        Inl e \<Rightarrow> (Inl e, st)
      | Inr url \<Rightarrow>
          callOrFallback env st url (justServeOptions cfg) location filters)"

definition unitedWayUrl :: "'f platform \<Rightarrow> jsval \<Rightarrow> jsval \<Rightarrow> error + string" where
  "unitedWayUrl pf location filters =
     (case get_prop filters ''distance'' of
        Inl e \<Rightarrow> Inl e
      | Inr distance \<Rightarrow>
     (case get_prop filters ''category'' of
        Inl e \<Rightarrow> Inl e
      | Inr category \<Rightarrow>
     (case query pf (assign pf
             [(''location'', Val location),
              (''radius'', Val (js_or distance (Num 25))),
              (''cause'', Val (js_or category (Str [])))] filters) of
        Inl e \<Rightarrow> Inl e
      | Inr params \<Rightarrow> Inr (unitedWay_baseUrl @ ''/volunteer-opportunities?'' @ params))))"

definition unitedWayOptions :: "config \<Rightarrow> jsval" where
  "unitedWayOptions cfg =
     Obj [(''headers'', Obj [(''Authorization'', bearer (unitedWayKey cfg))])]"

definition searchUnitedWay ::
  "'f platform \<Rightarrow> config \<Rightarrow> call_env \<Rightarrow> api_state \<Rightarrow> jsval \<Rightarrow> jsval
     \<Rightarrow> (error + jsval) \<times> api_state" where
  "searchUnitedWay pf cfg env st location filters0 =
     (let filters = default_arg filters0 in
      case unitedWayUrl pf location filters of
        Inl e \<Rightarrow> (Inl e, st)
      | Inr url \<Rightarrow>
          callOrFallback env st url (unitedWayOptions cfg) location filters)"

section \<open>Geocoding\<close>

record 'f geopoint =
  lat :: 'f
  lng :: 'f

text \<open>
  \<^verbatim>\<open>v > 0\<close>: the operand is converted to a number. \<^verbatim>\<open>undefined\<close> converts to NaN and
  \<^verbatim>\<open>null\<close> to 0, a boolean to 0 or 1; a string converts as the platform reads it,
  and an array or object through its conversion to string, which may throw.
\<close>

fun gt_zero :: "'f platform \<Rightarrow> jsval \<Rightarrow> error + bool" where
  "gt_zero pf Undefined = Inr False"
| "gt_zero pf Null = Inr False"
| "gt_zero pf (Bool b) = Inr b"
| "gt_zero pf (Num n) = Inr (0 < n)"
| "gt_zero pf (Str s) = Inr (positive pf s)"
| "gt_zero pf v = (case toString v of Inl e \<Rightarrow> Inl e | Inr s \<Rightarrow> Inr (positive pf s))"

text \<open>\<^verbatim>\<open>parseFloat(v)\<close> converts its argument to a string first.\<close>

definition js_parseFloat :: "'f platform \<Rightarrow> jsval \<Rightarrow> error + 'f" where
  "js_parseFloat pf v =
     (case toString v of Inl e \<Rightarrow> Inl e | Inr s \<Rightarrow> Inr (parseFloat pf s))"

text \<open>
  The statements of the \<^verbatim>\<open>try\<close> block that follow the call; \<open>Inr None\<close> is falling
  through to \<^verbatim>\<open>return null\<close>.
\<close>

definition firstPoint :: "'f platform \<Rightarrow> jsval \<Rightarrow> error + 'f geopoint option" where
  "firstPoint pf result =
     (if \<not> truthy result then Inr None
      else
     (case get_prop result ''length'' of
        Inl e \<Rightarrow> Inl e
      | Inr len \<Rightarrow>
     (case gt_zero pf len of
        Inl e \<Rightarrow> Inl e
      | Inr False \<Rightarrow> Inr None
      | Inr True \<Rightarrow>
     (case get_first result of
        Inl e \<Rightarrow> Inl e
      | Inr first \<Rightarrow>
     (case get_prop first ''lat'' of
        Inl e \<Rightarrow> Inl e
      | Inr la \<Rightarrow>
     (case js_parseFloat pf la of
        Inl e \<Rightarrow> Inl e
      | Inr x \<Rightarrow>
     (case get_prop first ''lon'' of
        Inl e \<Rightarrow> Inl e
      | Inr lo \<Rightarrow>
     (case js_parseFloat pf lo of
        Inl e \<Rightarrow> Inl e
      | Inr y \<Rightarrow> Inr (Some \<lparr>lat = x, lng = y\<rparr>)))))))))"

definition geocodeUrl :: "'f platform \<Rightarrow> jsval \<Rightarrow> error + string" where
  "geocodeUrl pf address =
     (case query pf
             [(''q'', Val address), (''format'', Val (Str ''json'')), (''limit'', Val (Num 1))] of
        Inl e \<Rightarrow> Inl e
      | Inr params \<Rightarrow> Inr (nominatim @ ''?'' @ params))"

definition geocodeLocation ::
  "'f platform \<Rightarrow> call_env \<Rightarrow> api_state \<Rightarrow> jsval
     \<Rightarrow> (error + 'f geopoint option) \<times> api_state" where
  "geocodeLocation pf env st address =
     (case geocodeUrl pf address of
        Inl e \<Rightarrow> (Inl e, st)
      | Inr url \<Rightarrow>
          (case makeAPICall env st url Undefined of
             (Inl e, st') \<Rightarrow> (Inr None, st')
           | (Inr result, st') \<Rightarrow>
               (case firstPoint pf result of
                  Inl e \<Rightarrow> (Inr None, st')
                | Inr p \<Rightarrow> (Inr p, st'))))"

section \<open>Combining results\<close>

text \<open>The key \<^verbatim>\<open>`${opp.title}-${opp.organization}`\<close>.\<close>

definition oppKey :: "jsval \<Rightarrow> error + string" where
  "oppKey opp =
     (case get_prop opp ''title'' of
        Inl e \<Rightarrow> Inl e
      | Inr title \<Rightarrow>
     (case toString title of
        Inl e \<Rightarrow> Inl e
      | Inr t \<Rightarrow>
     (case get_prop opp ''organization'' of
        Inl e \<Rightarrow> Inl e
      | Inr organization \<Rightarrow>
     (case toString organization of
        Inl e \<Rightarrow> Inl e
      | Inr g \<Rightarrow> Inr (t @ ''-'' @ g)))))"

text \<open>
  The inner \<^verbatim>\<open>forEach\<close>, over the opportunities of one result; the state of the loop is the
  array \<^verbatim>\<open>combined\<close> and the set \<^verbatim>\<open>seen\<close>.
\<close>

fun addOpportunities ::
  "jsval list \<Rightarrow> jsval list \<times> string set \<Rightarrow> error + jsval list \<times> string set" where
  "addOpportunities [] acc = Inr acc"
| "addOpportunities (opp # opps) (combined, seen) =
     (case oppKey opp of
        Inl e \<Rightarrow> Inl e
      | Inr key \<Rightarrow>
          if key \<notin> seen then addOpportunities opps (combined @ [opp], insert key seen)
          else addOpportunities opps (combined, seen))"

text \<open>
  The outer \<^verbatim>\<open>forEach\<close>, over the results. Only an array has a \<^verbatim>\<open>forEach\<close> to call: any
  other truthy value of \<^verbatim>\<open>result.opportunities\<close> throws.
\<close>

fun addResults ::
  "jsval list \<Rightarrow> jsval list \<times> string set \<Rightarrow> error + jsval list \<times> string set" where
  "addResults [] acc = Inr acc"
| "addResults (result # results) acc =
     (case get_prop result ''opportunities'' of
        Inl e \<Rightarrow> Inl e
      | Inr opportunities \<Rightarrow>
          if truthy opportunities then
            (case opportunities of
               Arr opps \<Rightarrow>
                 (case addOpportunities opps acc of
                    Inl e \<Rightarrow> Inl e
                  | Inr acc' \<Rightarrow> addResults results acc')
             | _ \<Rightarrow> Inl TypeError)
          else addResults results acc)"

definition combineResults :: "jsval list \<Rightarrow> error + jsval" where
  "combineResults apiResults =
     (case addResults apiResults ([], {}) of
        Inl e \<Rightarrow> Inl e
      | Inr (combined, seen) \<Rightarrow> Inr (Obj [(''opportunities'', Arr combined)]))"

section \<open>All sources\<close>

text \<open>
  The three searches are started one after the other and all are awaited
  (\<^verbatim>\<open>Promise.allSettled\<close>); their requests have different URLs, so each reads and writes its
  own cache entry. \<open>fulfilled\<close> keeps the values of the promises that were not rejected.
\<close>

fun fulfilled :: "(error + jsval) list \<Rightarrow> jsval list" where
  "fulfilled [] = []"
| "fulfilled (Inl e # rs) = fulfilled rs"
| "fulfilled (Inr v # rs) = v # fulfilled rs"


section \<open>Combining results, with the arrays in a store\<close>

text \<open>
  \<^verbatim>\<open>combineResults\<close> allocates the array \<^verbatim>\<open>combined\<close> and pushes onto it, while it reads
  the arrays and result objects it was given. To tell the new array from the given ones,
  this second rendering of the same function keeps arrays and objects in a store, a list of
  cells addressed by position. A value is either plain data or a reference to a cell; the
  opportunities themselves are plain data, which the function only reads.
\<close>

datatype sval = Data jsval | Ref nat

datatype cell = Array "jsval list" | Object "(string \<times> sval) list"

type_synonym store = "cell list"

definition cell_at :: "store \<Rightarrow> nat \<Rightarrow> cell option" where
  "cell_at s a = (if a < length s then Some (s ! a) else None)"

text \<open>
  \<^verbatim>\<open>result.opportunities\<close> on a plain value or through a reference. A reference always
  points to a cell of the store; the last case gives the model a value where it does not.
\<close>

fun s_opportunities :: "store \<Rightarrow> sval \<Rightarrow> error + sval" where
  "s_opportunities s (Data v) =
     (case get_prop v ''opportunities'' of Inl e \<Rightarrow> Inl e | Inr w \<Rightarrow> Inr (Data w))"
| "s_opportunities s (Ref a) =
     (case cell_at s a of
        Some (Object props) \<Rightarrow>
          Inr (case map_of props ''opportunities'' of Some w \<Rightarrow> w | None \<Rightarrow> Data Undefined)
      | Some (Array xs) \<Rightarrow> Inr (Data Undefined)
      | None \<Rightarrow> Inl TypeError)"

fun s_truthy :: "sval \<Rightarrow> bool" where
  "s_truthy (Data v) = truthy v"
| "s_truthy (Ref a) = True"

text \<open>\<^verbatim>\<open>combined.push(opp)\<close>, on the array at address \<open>c\<close>.\<close>

definition push :: "store \<Rightarrow> nat \<Rightarrow> jsval \<Rightarrow> store" where
  "push s c opp =
     (case cell_at s c of Some (Array xs) \<Rightarrow> s[c := Array (xs @ [opp])] | _ \<Rightarrow> s)"

text \<open>The body of the inner loop, for one opportunity.\<close>

definition visit :: "nat \<Rightarrow> jsval \<Rightarrow> store \<times> string set \<Rightarrow> error + store \<times> string set" where
  "visit c opp acc =
     (case oppKey opp of
        Inl e \<Rightarrow> Inl e
      | Inr key \<Rightarrow>
          if key \<notin> snd acc then Inr (push (fst acc) c opp, insert key (snd acc))
          else Inr acc)"

text \<open>
  \<^verbatim>\<open>forEach\<close> over the array at address \<open>a\<close>: the indices below the length the array had
  when the loop started are visited in order, and each element is read from the store as
  it is at that moment.
\<close>

fun s_forEach ::
  "nat \<Rightarrow> nat \<Rightarrow> nat list \<Rightarrow> store \<times> string set \<Rightarrow> error + store \<times> string set" where
  "s_forEach c a [] acc = Inr acc"
| "s_forEach c a (k # ks) acc =
     (case cell_at (fst acc) a of
        Some (Array xs) \<Rightarrow>
          if k < length xs then
            (case visit c (xs ! k) acc of
               Inl e \<Rightarrow> Inl e
             | Inr acc' \<Rightarrow> s_forEach c a ks acc')
          else s_forEach c a ks acc
      | _ \<Rightarrow> s_forEach c a ks acc)"

text \<open>The same loop over an array that is plain data.\<close>

fun d_forEach ::
  "nat \<Rightarrow> jsval list \<Rightarrow> store \<times> string set \<Rightarrow> error + store \<times> string set" where
  "d_forEach c [] acc = Inr acc"
| "d_forEach c (opp # opps) acc =
     (case visit c opp acc of
        Inl e \<Rightarrow> Inl e
      | Inr acc' \<Rightarrow> d_forEach c opps acc')"

definition s_addOpportunities ::
  "nat \<Rightarrow> sval \<Rightarrow> store \<times> string set \<Rightarrow> error + store \<times> string set" where
  "s_addOpportunities c opportunities acc =
     (case opportunities of
        Data (Arr opps) \<Rightarrow> d_forEach c opps acc
      | Data v \<Rightarrow> Inl TypeError
      | Ref a \<Rightarrow>
          (case cell_at (fst acc) a of
             Some (Array xs) \<Rightarrow> s_forEach c a [0..<length xs] acc
           | _ \<Rightarrow> Inl TypeError))"

fun s_addResults ::
  "nat \<Rightarrow> sval list \<Rightarrow> store \<times> string set \<Rightarrow> error + store \<times> string set" where
  "s_addResults c [] acc = Inr acc"
| "s_addResults c (result # results) acc =
     (case s_opportunities (fst acc) result of
        Inl e \<Rightarrow> Inl e
      | Inr opportunities \<Rightarrow>
          if s_truthy opportunities then
            (case s_addOpportunities c opportunities acc of
               Inl e \<Rightarrow> Inl e
             | Inr acc' \<Rightarrow> s_addResults c results acc')
          else s_addResults c results acc)"

text \<open>
  The function: \<^verbatim>\<open>combined\<close> is allocated at the first free address, the loops run, and
  the object \<^verbatim>\<open>{ opportunities: combined }\<close> is allocated and returned.
\<close>

definition s_combineResults :: "store \<Rightarrow> sval list \<Rightarrow> error + store \<times> sval" where
  "s_combineResults s apiResults =
     (let combined = length s in
      case s_addResults combined apiResults (s @ [Array []], {}) of
        Inl e \<Rightarrow> Inl e
      | Inr (s', seen) \<Rightarrow>
          Inr (s' @ [Object [(''opportunities'', Ref combined)]], Ref (length s')))"

text \<open>
  The data that a value of the store stands for, references replaced by what they hold:
  \<open>held\<close> for the value of a property, \<open>deref\<close> for a result.
\<close>

definition held :: "store \<Rightarrow> sval \<Rightarrow> jsval" where
  "held s w =
     (case w of
        Data v \<Rightarrow> v
      | Ref b \<Rightarrow> (case cell_at s b of Some (Array ys) \<Rightarrow> Arr ys | _ \<Rightarrow> Obj []))"

fun deref :: "store \<Rightarrow> sval \<Rightarrow> jsval" where
  "deref s (Data v) = v"
| "deref s (Ref a) =
     (case cell_at s a of
        Some (Array xs) \<Rightarrow> Arr xs
      | Some (Object props) \<Rightarrow> Obj (map (\<lambda>(k, w). (k, held s w)) props)
      | None \<Rightarrow> Undefined)"

text \<open>
  A reference is valid when it points into the store; a store is well formed when the
  references held by its objects are valid.
\<close>

definition valid :: "store \<Rightarrow> sval \<Rightarrow> bool" where
  "valid s w = (case w of Data v \<Rightarrow> True | Ref a \<Rightarrow> a < length s)"

definition well_formed :: "store \<Rightarrow> bool" where
  "well_formed s =
     list_all (\<lambda>c. case c of Array xs \<Rightarrow> True | Object props \<Rightarrow> list_all (valid s \<circ> snd) props) s"

text \<open>The state of the loops of the first rendering, with \<^verbatim>\<open>combined\<close> placed after the store.\<close>

definition withStore ::
  "store \<Rightarrow> error + jsval list \<times> string set \<Rightarrow> error + store \<times> string set" where
  "withStore s r =
     (case r of Inl e \<Rightarrow> Inl e | Inr (combined, seen) \<Rightarrow> Inr (s @ [Array combined], seen))"

section \<open>The scraper\<close>

text \<open>
  The page is seen through the DOM: \<open>matches\<close> is \<^verbatim>\<open>parseFromString\<close> followed by
  \<^verbatim>\<open>querySelectorAll\<close>, an element is its \<^verbatim>\<open>querySelector\<close>, and both throw on a selector
  that is not valid. \<open>clock i\<close> is the reading of \<^verbatim>\<open>Date.now()\<close> when element \<open>i\<close> is visited.
  \<open>trim\<close> and \<open>resolveURL\<close> (\<^verbatim>\<open>new URL(href, base).href\<close>, which throws on an invalid URL)
  are functions of the browser.
\<close>

record node =
  textContent :: string
  href :: "string option"

type_synonym element = "string \<Rightarrow> error + node option"

record scrape_env =
  response :: fetch_result
  matches :: "jsval \<Rightarrow> string \<Rightarrow> error + element list"
  clock :: "nat \<Rightarrow> int"
  trim :: "string \<Rightarrow> string"
  resolveURL :: "string \<Rightarrow> string \<Rightarrow> error + string"

definition querySelector :: "element \<Rightarrow> jsval \<Rightarrow> error + node option" where
  "querySelector element selector =
     (case toString selector of Inl e \<Rightarrow> Inl e | Inr s \<Rightarrow> element s)"

definition extractText :: "scrape_env \<Rightarrow> element \<Rightarrow> jsval \<Rightarrow> error + string" where
  "extractText env element selector =
     (if \<not> truthy selector then Inr []
      else (case querySelector element selector of
              Inl e \<Rightarrow> Inl e
            | Inr None \<Rightarrow> Inr []
            | Inr (Some target) \<Rightarrow> Inr (trim env (textContent target))))"

definition startsWith :: "string \<Rightarrow> string \<Rightarrow> bool" where
  "startsWith s p = (take (length p) s = p)"

definition extractLink :: "scrape_env \<Rightarrow> element \<Rightarrow> jsval \<Rightarrow> string \<Rightarrow> error + string" where
  "extractLink env element selector baseUrl =
     (if \<not> truthy selector then Inr []
      else (case querySelector element selector of
              Inl e \<Rightarrow> Inl e
            | Inr None \<Rightarrow> Inr []
            | Inr (Some target) \<Rightarrow>
                (case href target of
                   None \<Rightarrow> Inr []
                 | Some h \<Rightarrow>
                     if h = [] then Inr []
                     else if startsWith h ''http'' then Inr h
                     else resolveURL env h baseUrl)))"

text \<open>The object built for one element, or what building it throws.\<close>

definition scrapeElement ::
  "scrape_env \<Rightarrow> jsval \<Rightarrow> string \<Rightarrow> element \<Rightarrow> nat \<Rightarrow> error + jsval" where
  "scrapeElement env selectors url element index =
     (case get_prop selectors ''title'' of Inl e \<Rightarrow> Inl e | Inr s1 \<Rightarrow>
     (case extractText env element s1 of Inl e \<Rightarrow> Inl e | Inr title \<Rightarrow>
     (case get_prop selectors ''organization'' of Inl e \<Rightarrow> Inl e | Inr s2 \<Rightarrow>
     (case extractText env element s2 of Inl e \<Rightarrow> Inl e | Inr organization \<Rightarrow>
     (case get_prop selectors ''description'' of Inl e \<Rightarrow> Inl e | Inr s3 \<Rightarrow>
     (case extractText env element s3 of Inl e \<Rightarrow> Inl e | Inr description \<Rightarrow>
     (case get_prop selectors ''date'' of Inl e \<Rightarrow> Inl e | Inr s4 \<Rightarrow>
     (case extractText env element s4 of Inl e \<Rightarrow> Inl e | Inr date \<Rightarrow>
     (case get_prop selectors ''location'' of Inl e \<Rightarrow> Inl e | Inr s5 \<Rightarrow>
     (case extractText env element s5 of Inl e \<Rightarrow> Inl e | Inr location \<Rightarrow>
     (case get_prop selectors ''link'' of Inl e \<Rightarrow> Inl e | Inr s6 \<Rightarrow>
     (case extractLink env element s6 url of Inl e \<Rightarrow> Inl e | Inr link \<Rightarrow>
        Inr (Obj [(''id'', Str (''scraped-'' @ show_int (clock env index) @ ''-'' @ dec index)),
                  (''title'', Str title),
                  (''organization'', Str organization),
                  (''description'', Str description),
                  (''date'', Str date),
                  (''location'', Str location),
                  (''link'', Str link)])))))))))))))"

text \<open>The \<^verbatim>\<open>forEach\<close> over the matched elements, from index \<open>index\<close> on.\<close>

fun scrapeElements ::
  "scrape_env \<Rightarrow> jsval \<Rightarrow> string \<Rightarrow> element list \<Rightarrow> nat \<Rightarrow> jsval list \<Rightarrow> error + jsval list" where
  "scrapeElements env selectors url [] index opportunities = Inr opportunities"
| "scrapeElements env selectors url (element # elements) index opportunities =
     (case scrapeElement env selectors url element index of
        Inl e \<Rightarrow> Inl e
      | Inr opportunity \<Rightarrow>
          (case get_prop opportunity ''title'' of
             Inl e \<Rightarrow> Inl e
           | Inr title \<Rightarrow>
               scrapeElements env selectors url elements (Suc index)
                 (if truthy title then opportunities @ [opportunity] else opportunities)))"

text \<open>
  The \<^verbatim>\<open>try\<close> block of \<^verbatim>\<open>scrapeSite\<close>. The status of the response is not looked at, and
  the request itself (the proxy URL followed by the encoded page URL) plays no part in what
  is returned.
\<close>

definition scrapeTry :: "scrape_env \<Rightarrow> string \<Rightarrow> jsval \<Rightarrow> error + jsval list" where
  "scrapeTry env url selectors =
     (case response env of
        Rejected \<Rightarrow> Inl NetworkError
      | Response status None \<Rightarrow> Inl SyntaxError
      | Response status (Some d) \<Rightarrow>
     (case get_prop d ''contents'' of
        Inl e \<Rightarrow> Inl e
      | Inr contents \<Rightarrow>
     (case get_prop selectors ''container'' of
        Inl e \<Rightarrow> Inl e
      | Inr container \<Rightarrow>
     (case toString container of
        Inl e \<Rightarrow> Inl e
      | Inr sel \<Rightarrow>
     (case matches env contents sel of
        Inl e \<Rightarrow> Inl e
      | Inr opportunityElements \<Rightarrow>
          scrapeElements env selectors url opportunityElements 0 [])))))"

definition scrapeSite :: "scrape_env \<Rightarrow> string \<Rightarrow> jsval \<Rightarrow> jsval list" where
  "scrapeSite env url selectors =
     (case scrapeTry env url selectors of Inl e \<Rightarrow> [] | Inr opportunities \<Rightarrow> opportunities)"

section \<open>The merge as the specification words it\<close>

text \<open>
  Following the specification: the merge ``flattens all opportunities arrays from the input
  list into one ordered sequence''. \<open>flattened\<close> is that sequence: the arrays found under
  \<^verbatim>\<open>opportunities\<close>, one after the other, in the order of the results.
\<close>

definition opportunitiesOf :: "jsval \<Rightarrow> jsval list" where
  "opportunitiesOf result =
     (case get_prop result ''opportunities'' of Inr (Arr opps) \<Rightarrow> opps | _ \<Rightarrow> [])"

definition flattened :: "jsval list \<Rightarrow> jsval list" where
  "flattened apiResults = concat (map opportunitiesOf apiResults)"

text \<open>
  Following the specification: ``the first occurrence of a key wins''. \<open>firstOccurrences\<close>
  lists, in increasing order, the positions of a list of keys whose key does not occur at
  an earlier position.
\<close>

definition firstOccurrences :: "string list \<Rightarrow> nat list" where
  "firstOccurrences keys = filter (\<lambda>j. keys ! j \<notin> set (take j keys)) [0..<length keys]"

text \<open>The keyed elements whose key is neither in \<open>seen\<close> nor at an earlier element.\<close>

fun keepFirst :: "string set \<Rightarrow> (string \<times> 'a) list \<Rightarrow> 'a list" where
  "keepFirst seen [] = []"
| "keepFirst seen ((k, x) # rest) =
     (if k \<in> seen then keepFirst seen rest else x # keepFirst (insert k seen) rest)"

section \<open>Options that JSON represents\<close>

text \<open>\<^verbatim>\<open>Number.isSafeInteger\<close>, on the integers.\<close>

definition isSafeInteger :: "int \<Rightarrow> bool" where
  "isSafeInteger n = (\<bar>n\<bar> \<le> 2 ^ 53 - 1)"

text \<open>
  \<open>json_data v\<close>: the value \<^verbatim>\<open>undefined\<close> occurs nowhere in \<open>v\<close> and every number in \<open>v\<close>
  is a safe integer, so that \<^verbatim>\<open>JSON.stringify\<close> leaves nothing out and writes every number
  with its digits.
\<close>

fun json_data :: "jsval \<Rightarrow> bool"
  and json_elems :: "jsval list \<Rightarrow> bool"
  and json_props :: "(string \<times> jsval) list \<Rightarrow> bool" where
  "json_data Undefined = False"
| "json_data Null = True"
| "json_data (Bool b) = True"
| "json_data (Num n) = isSafeInteger n"
| "json_data (Str s) = True"
| "json_data (Arr xs) = json_elems xs"
| "json_data (Obj kvs) = json_props kvs"
| "json_elems [] = True"
| "json_elems (x # xs) = (json_data x \<and> json_elems xs)"
| "json_props [] = True"
| "json_props ((k, v) # kvs) = (json_data v \<and> json_props kvs)"

text \<open>
  Options that are left out, or are a plain object made, to any depth, of \<^verbatim>\<open>null\<close>,
  booleans, safe integers, strings, arrays and plain objects.
\<close>

definition plainOptions :: "jsval \<Rightarrow> bool" where
  "plainOptions options =
     (case options of Undefined \<Rightarrow> True | Obj kvs \<Rightarrow> json_props kvs | _ \<Rightarrow> False)"

section \<open>Reading a serialisation\<close>

text \<open>
  What the proofs about \<^verbatim>\<open>JSON.stringify\<close> are stated with: the text of a value, the
  digits of a number, and a reader that tells where the text of an object or array ends.
\<close>

text \<open>The text of a value inside an array.\<close>

definition elemText :: "jsval \<Rightarrow> string" where
  "elemText v = (case stringify v of None \<Rightarrow> ''null'' | Some s \<Rightarrow> s)"

text \<open>The number that a string of decimal digits denotes.\<close>

definition digit_val :: "char \<Rightarrow> nat" where
  "digit_val c = of_char c - 48"

definition undec :: "string \<Rightarrow> nat" where
  "undec s = foldl (\<lambda>a c. 10 * a + digit_val c) 0 s"

text \<open>A text that does not go on with a digit.\<close>

definition delimited :: "string \<Rightarrow> bool" where
  "delimited r = (case r of [] \<Rightarrow> True | c # _ \<Rightarrow> \<not> is_digit c)"

text \<open>The kind of a value, and the kind that the first character of a text announces.\<close>

fun kind :: "jsval \<Rightarrow> nat" where
  "kind Undefined = 0"
| "kind Null = 1"
| "kind (Bool b) = 2"
| "kind (Num n) = 3"
| "kind (Str s) = 4"
| "kind (Arr xs) = 5"
| "kind (Obj kvs) = 6"

definition kind_of_char :: "char \<Rightarrow> nat" where
  "kind_of_char c =
     (if c = CHR ''n'' then 1
      else if c = CHR ''t'' \<or> c = CHR ''f'' then 2
      else if c = CHR 0x22 then 4
      else if c = CHR ''['' then 5
      else if c = CHR ''{'' then 6
      else 3)"

text \<open>
  Reading a text from left to right, outside or inside a string literal or just after a
  backslash in one, at a depth of open brackets. \<open>top m d t\<close> holds when \<open>t\<close> is the rest of
  the text of one array or object: brackets close properly, no backslash comes outside a
  string or before an opening brace, and the text ends with the bracket that closes the
  outermost one.
\<close>

datatype mode = Outside | Inside | Escaped

fun top :: "mode \<Rightarrow> nat \<Rightarrow> string \<Rightarrow> bool" where
  "top m d [] = False"
| "top Outside d (c # cs) =
     (if c = CHR ''{'' \<or> c = CHR ''['' then top Outside (Suc d) cs
      else if d = 0 \<or> c = CHR 0x5C then False
      else if c = CHR 0x22 then top Inside d cs
      else if c = CHR ''}'' \<or> c = CHR '']'' then
        (if d = 1 then cs = [] else top Outside (d - 1) cs)
      else top Outside d cs)"
| "top Inside d (c # cs) =
     (if c = CHR 0x5C then top Escaped d cs
      else if c = CHR 0x22 then top Outside d cs
      else top Inside d cs)"
| "top Escaped d (c # cs) = (c \<noteq> CHR ''{'' \<and> top Inside d cs)"

section \<open>Concrete inputs\<close>

text \<open>A platform, a configuration and environments on which the functions can be run.\<close>

definition examplePlatform :: "string platform" where
  "examplePlatform =
     \<lparr>urlencode = (\<lambda>ps. concat (map (\<lambda>(k, v). k @ ''='' @ v @ ''&'') ps)),
      assign = (\<lambda>literal source. literal),
      nativeToString = (\<lambda>name. ''function''),
      parseFloat = (\<lambda>s. s),
      positive = (\<lambda>s. False)\<rparr>"

definition exampleConfig :: config where
  "exampleConfig = \<lparr>volunteerMatchKey = None, justServeKey = None, unitedWayKey = Some ''k''\<rparr>"

definition emptyState :: api_state where
  "emptyState = \<lparr>cache = Map.empty, fetchLog = []\<rparr>"

text \<open>A provider that answers 503 with a body that is not JSON.\<close>

definition failing :: call_env where
  "failing = \<lparr>now_check = 0, fetched = Response 503 None, now_store = 1\<rparr>"

text \<open>A provider that answers 200 with the payload \<open>d\<close>; the call starts at \<open>t\<close>.\<close>

definition answering :: "int \<Rightarrow> jsval \<Rightarrow> call_env" where
  "answering t d = \<lparr>now_check = t, fetched = Response 200 (Some d), now_store = t + 150\<rparr>"

text \<open>The state after one successful call for the URL \<^verbatim>\<open>u\<close>, stored at time 150.\<close>

definition cachedState :: api_state where
  "cachedState =
     \<lparr>cache = [''u{}'' \<mapsto> \<lparr>data = Str ''one'', timestamp = 150\<rparr>], fetchLog = [''u'']\<rparr>"

text \<open>
  Two calls for the URL \<^verbatim>\<open>u\<close> that overlap. The first starts at time 0 and the second at
  time 100, before the answer to the first has arrived; the answers arrive at 150 and 250.
\<close>

definition firstStarted :: "started \<times> api_state" where
  "firstStarted = makeAPICall_start 0 emptyState ''u'' Undefined"

definition secondStarted :: "started \<times> api_state" where
  "secondStarted = makeAPICall_start 100 (snd firstStarted) ''u'' Undefined"

definition firstFinished :: "(error + jsval) \<times> api_state" where
  "firstFinished =
     makeAPICall_finish (Response 200 (Some (Str ''one''))) 150 (cacheKey ''u'' Undefined)
       (snd secondStarted)"

definition secondFinished :: "(error + jsval) \<times> api_state" where
  "secondFinished =
     makeAPICall_finish (Response 200 (Some (Str ''two''))) 250 (cacheKey ''u'' Undefined)
       (snd firstFinished)"

text \<open>
  A scraped page with two cards, the first without a title element, and the same page
  when the proxy cannot be reached.
\<close>

definition untitledCard :: element where
  "untitledCard = (\<lambda>selector. Inr None)"

definition titledCard :: element where
  "titledCard =
     (\<lambda>selector. if selector = ''.title''
                  then Inr (Some \<lparr>textContent = ''Park cleanup'', href = None\<rparr>)
                  else Inr None)"

definition examplePage :: scrape_env where
  "examplePage =
     \<lparr>response = Response 200 (Some (Obj [(''contents'', Str ''<html></html>'')])),
      matches = (\<lambda>contents selector. Inr [untitledCard, titledCard]),
      clock = (\<lambda>index. 1700000000000),
      trim = (\<lambda>s. s),
      resolveURL = (\<lambda>h base. Inr (base @ h))\<rparr>"

definition offlinePage :: scrape_env where
  "offlinePage = examplePage\<lparr>response := Rejected\<rparr>"

definition exampleSelectors :: jsval where
  "exampleSelectors = Obj [(''container'', Str ''.card''), (''title'', Str ''.title'')]"

definition scrapedCard :: jsval where
  "scrapedCard =
     Obj [(''id'', Str ''scraped-1700000000000-1''),
          (''title'', Str ''Park cleanup''),
          (''organization'', Str []),
          (''description'', Str []),
          (''date'', Str []),
          (''location'', Str []),
          (''link'', Str [])]"

text \<open>
  Opportunities for the merge. The first two have different titles and organizations and
  the same key string; the third has the title and organization of the second.
\<close>

definition pantry1 :: jsval where
  "pantry1 =
     Obj [(''id'', Str ''1''), (''title'', Str ''Food drive-Mid''),
          (''organization'', Str ''City Pantry'')]"

definition pantry2 :: jsval where
  "pantry2 =
     Obj [(''id'', Str ''2''), (''title'', Str ''Food drive''),
          (''organization'', Str ''Mid-City Pantry'')]"

definition pantry3 :: jsval where
  "pantry3 =
     Obj [(''id'', Str ''3''), (''title'', Str ''Food drive''),
          (''organization'', Str ''Mid-City Pantry''), (''date'', Str ''Sunday'')]"

definition tutoring :: jsval where
  "tutoring =
     Obj [(''id'', Str ''4''), (''title'', Str ''Tutoring''), (''organization'', Str ''Library'')]"

text \<open>A store with two results, each referring to its array of opportunities.\<close>

definition exampleStore :: store where
  "exampleStore =
     [Array [pantry2, tutoring],
      Object [(''opportunities'', Ref 0)],
      Array [pantry3],
      Object [(''opportunities'', Ref 2)]]"

section \<open>Properties\<close>

subsection \<open>The cached call\<close>

lemma default_arg_idem [simp]: "default_arg (default_arg v) = default_arg v"
  by (simp add: default_arg_def)

lemma makeAPICall_failure_keeps_cache:
  "fst (makeAPICall env st url options) = Inl e \<Longrightarrow>
   cache (snd (makeAPICall env st url options)) = cache st"
  by (auto simp: makeAPICall_def Let_def
           split: option.splits sum.splits fetch_result.splits if_splits)

lemma callOrFallback_failure:
  "fst (makeAPICall env st url options) = Inl e \<Longrightarrow>
   fst (callOrFallback env st url options location filters) = getFallbackData location filters"
  by (cases "makeAPICall env st url options") (auto simp: callOrFallback_def split: sum.splits)

lemma callOrFallback_snd:
  "snd (callOrFallback env st url options location filters) = snd (makeAPICall env st url options)"
  by (cases "makeAPICall env st url options") (auto simp: callOrFallback_def split: sum.splits)

subsection \<open>Category mapping\<close>

lemma mapCategory_recognised:
  "map_of mapping k = Some n \<Longrightarrow> mapCategoryToJustServe (Str k) = Inr (Val (Num n))"
  by (simp add: mapCategoryToJustServe_def)

lemma mapCategory_other:
  "map_of mapping k = None \<Longrightarrow> k \<notin> set object_prototype_names
     \<Longrightarrow> mapCategoryToJustServe (Str k) = Inr (Val (Str []))"
  by (simp add: mapCategoryToJustServe_def)

text \<open>
  C8. The category \<^verbatim>\<open>constructor\<close> is none of the ten labels, and
  \<^verbatim>\<open>mapCategoryToJustServe\<close> does not return the empty string for it: the lookup finds the
  member of \<^verbatim>\<open>Object.prototype\<close> of that name, which is truthy, and returns it.
\<close>

theorem C8_inherited_name_is_returned:
  "map_of mapping ''constructor'' = None \<and>
   mapCategoryToJustServe (Str ''constructor'') = Inr (Inherited ''constructor'')"
  by (simp add: mapCategoryToJustServe_def mapping_def object_prototype_names_def)

subsection \<open>Fallback data\<close>

lemma getFallbackData_value:
  "get_prop filters ''category'' = Inr category \<Longrightarrow>
   getFallbackData location filters =
     Inr (Obj [(''opportunities'', Arr [fallbackOpportunity location category])])"
  by (simp add: getFallbackData_def)

text \<open>
  C6, as amended. When the call under one of the three searches fails, the search is
  fulfilled with one fallback record. Its id, title, organization, description, date, time,
  skills and contact are constants; its location is the location asked for, and its category
  is \<^verbatim>\<open>filters.category\<close> when that is truthy and \<^verbatim>\<open>environment\<close> otherwise.
\<close>

theorem C6_search_falls_back:
  assumes "get_prop (default_arg filters) ''category'' = Inr category"
  shows
    "(volunteerMatchUrl pf location (default_arg filters) = Inr url1 \<longrightarrow>
      fst (makeAPICall env st url1 (volunteerMatchOptions cfg)) = Inl e1 \<longrightarrow>
      fst (searchVolunteerMatch pf cfg env st location filters) =
        Inr (Obj [(''opportunities'', Arr [fallbackOpportunity location category])])) \<and>
     (justServeUrl pf location (default_arg filters) = Inr url2 \<longrightarrow>
      fst (makeAPICall env st url2 (justServeOptions cfg)) = Inl e2 \<longrightarrow>
      fst (searchJustServe pf cfg env st location filters) =
        Inr (Obj [(''opportunities'', Arr [fallbackOpportunity location category])])) \<and>
     (unitedWayUrl pf location (default_arg filters) = Inr url3 \<longrightarrow>
      fst (makeAPICall env st url3 (unitedWayOptions cfg)) = Inl e3 \<longrightarrow>
      fst (searchUnitedWay pf cfg env st location filters) =
        Inr (Obj [(''opportunities'', Arr [fallbackOpportunity location category])])) \<and>
     fallbackOpportunity location category =
       Obj [(''id'', Str ''fallback-1''),
            (''title'', Str ''Community Cleanup Event''),
            (''organization'', Str ''Local Environmental Group''),
            (''category'', if truthy category then category else Str ''environment''),
            (''description'', Str ''Help clean up local parks and waterways.''),
            (''date'', Str ''This Weekend''),
            (''time'', Str ''9:00 AM - 1:00 PM''),
            (''location'', location),
            (''skills'', Str ''None required''),
            (''contact'', Str ''info@localenv.org'')]"
  using assms
  by (simp add: searchVolunteerMatch_def searchJustServe_def searchUnitedWay_def Let_def
                callOrFallback_failure getFallbackData_value fallbackOpportunity_def js_or_def)

lemma failing_call:
  "fst (makeAPICall failing emptyState url (Obj kvs)) = Inl (HTTPError 503)"
  by (simp add: makeAPICall_def failing_def emptyState_def default_arg_def response_ok_def)

lemma example_volunteerMatchUrl:
  "volunteerMatchUrl examplePlatform (Str s) (Obj []) =
     Inr (volunteerMatch_baseUrl @ ''?location='' @ s @ ''&radius=25&category=&resultsPerPage=20&'')"
  by (simp add: volunteerMatchUrl_def query_def examplePlatform_def js_or_def show_int_def
                dec.simps digit_char_def)

theorem C6_search_falls_back_witness:
  "get_prop (default_arg Undefined) ''category'' = Inr Undefined \<and>
   fst (makeAPICall failing emptyState
          (volunteerMatch_baseUrl @ ''?location=Arlington&radius=25&category=&resultsPerPage=20&'')
          (volunteerMatchOptions exampleConfig)) = Inl (HTTPError 503) \<and>
   fst (searchVolunteerMatch examplePlatform exampleConfig failing emptyState
          (Str ''Arlington'') Undefined) =
     Inr (Obj [(''opportunities'', Arr [fallbackOpportunity (Str ''Arlington'') Undefined])])"
proof -
  have c: "get_prop (default_arg Undefined) ''category'' = Inr Undefined"
    by (simp add: default_arg_def)
  have u: "volunteerMatchUrl examplePlatform (Str ''Arlington'') (default_arg Undefined) =
      Inr (volunteerMatch_baseUrl @ ''?location=Arlington&radius=25&category=&resultsPerPage=20&'')"
    by (simp add: default_arg_def example_volunteerMatchUrl)
  have f: "fst (makeAPICall failing emptyState
          (volunteerMatch_baseUrl @ ''?location=Arlington&radius=25&category=&resultsPerPage=20&'')
          (volunteerMatchOptions exampleConfig)) = Inl (HTTPError 503)"
    by (simp add: volunteerMatchOptions_def failing_call)
  from C6_search_falls_back [OF c, of examplePlatform "Str ''Arlington''" _ failing emptyState
         exampleConfig] u f
  have "fst (searchVolunteerMatch examplePlatform exampleConfig failing emptyState
          (Str ''Arlington'') Undefined) =
     Inr (Obj [(''opportunities'', Arr [fallbackOpportunity (Str ''Arlington'') Undefined])])"
    by blast
  with c f show ?thesis by blast
qed

text \<open>
  The claim as stated fails: two searches whose calls fail return different records when
  they were asked for different locations.
\<close>

theorem C6_counterexample:
  "fst (searchVolunteerMatch examplePlatform exampleConfig failing emptyState
          (Str ''Arlington'') (Obj [])) =
     Inr (Obj [(''opportunities'', Arr [fallbackOpportunity (Str ''Arlington'') Undefined])]) \<and>
   fst (searchVolunteerMatch examplePlatform exampleConfig failing emptyState
          (Str ''Boston'') (Obj [])) =
     Inr (Obj [(''opportunities'', Arr [fallbackOpportunity (Str ''Boston'') Undefined])]) \<and>
   fallbackOpportunity (Str ''Arlington'') Undefined \<noteq> fallbackOpportunity (Str ''Boston'') Undefined"
  by (simp add: searchVolunteerMatch_def Let_def default_arg_def example_volunteerMatchUrl
                volunteerMatchOptions_def callOrFallback_failure [OF failing_call]
                getFallbackData_def fallbackOpportunity_def)

subsection \<open>Geocoding\<close>

lemma show_int_1: "show_int 1 = ''1''"
  by (simp add: show_int_def dec.simps digit_char_def)

lemma geocodeUrl_string:
  "geocodeUrl pf (Str address) =
     Inr (nominatim @ ''?'' @
          urlencode pf [(''q'', address), (''format'', ''json''), (''limit'', ''1'')])"
  by (simp add: geocodeUrl_def query_def show_int_1)

lemma geocodeLocation_string:
  "fst (geocodeLocation pf env st (Str address)) =
     (case fst (makeAPICall env st
                  (nominatim @ ''?'' @
                   urlencode pf [(''q'', address), (''format'', ''json''), (''limit'', ''1'')])
                  Undefined) of
        Inl e \<Rightarrow> Inr None
      | Inr result \<Rightarrow> (case firstPoint pf result of Inl e \<Rightarrow> Inr None | Inr p \<Rightarrow> Inr p))"
  by (cases "makeAPICall env st
                  (nominatim @ ''?'' @
                   urlencode pf [(''q'', address), (''format'', ''json''), (''limit'', ''1'')])
                  Undefined")
     (auto simp: geocodeLocation_def geocodeUrl_string split: sum.splits)

lemma firstPoint_empty: "firstPoint pf (Arr []) = Inr None"
  by (simp add: firstPoint_def)

lemma firstPoint_nonempty:
  "firstPoint pf (Arr (first # rest)) =
     (case get_prop first ''lat'' of
        Inl e \<Rightarrow> Inl e
      | Inr la \<Rightarrow>
     (case js_parseFloat pf la of
        Inl e \<Rightarrow> Inl e
      | Inr x \<Rightarrow>
     (case get_prop first ''lon'' of
        Inl e \<Rightarrow> Inl e
      | Inr lo \<Rightarrow>
     (case js_parseFloat pf lo of
        Inl e \<Rightarrow> Inl e
      | Inr y \<Rightarrow> Inr (Some \<lparr>lat = x, lng = y\<rparr>)))))"
  by (simp add: firstPoint_def)

lemma get_prop_fails: "(get_prop v k = Inl e) = ((v = Undefined \<or> v = Null) \<and> e = TypeError)"
  by (cases v) auto

lemma get_prop_cases:
  obtains (nullish) "v = Undefined \<or> v = Null" "get_prop v k = Inl TypeError"
        | (proper) w where "v \<noteq> Undefined" "v \<noteq> Null" "get_prop v k = Inr w"
  by (cases v) auto

text \<open>
  C5. \<^verbatim>\<open>geocodeLocation\<close> of a string never rejects. It gives \<^verbatim>\<open>null\<close> when the call fails
  (whatever the failure) and when the provider answers with the empty array; when the
  first element of the answer has string fields \<^verbatim>\<open>lat\<close> and \<^verbatim>\<open>lon\<close>, it gives the point
  whose components are \<^verbatim>\<open>parseFloat\<close> of the two.
\<close>

theorem C5_geocodeLocation_never_raises:
  fixes pf :: "'f platform"
  shows
    "(\<exists>p. fst (geocodeLocation pf env st (Str address)) = Inr p) \<and>
     (\<exists>url. geocodeUrl pf (Str address) = Inr url) \<and>
     (geocodeUrl pf (Str address) = Inr url \<longrightarrow>
        (fst (makeAPICall env st url Undefined) = Inl e \<longrightarrow>
           fst (geocodeLocation pf env st (Str address)) = Inr None) \<and>
        (fst (makeAPICall env st url Undefined) = Inr (Arr []) \<longrightarrow>
           fst (geocodeLocation pf env st (Str address)) = Inr None) \<and>
        (fst (makeAPICall env st url Undefined) = Inr (Arr (Obj props # rest)) \<longrightarrow>
         map_of props ''lat'' = Some (Str la) \<longrightarrow> map_of props ''lon'' = Some (Str lo) \<longrightarrow>
           fst (geocodeLocation pf env st (Str address)) =
             Inr (Some \<lparr>lat = parseFloat pf la, lng = parseFloat pf lo\<rparr>)))"
  by (auto simp: geocodeLocation_string geocodeUrl_string firstPoint_empty firstPoint_nonempty
                 js_parseFloat_def split: sum.splits)

lemma answering_call:
  "fst (makeAPICall (answering t d) emptyState url Undefined) = Inr d"
  by (simp add: makeAPICall_def answering_def emptyState_def default_arg_def response_ok_def)

lemma failing_call_undefined:
  "fst (makeAPICall failing emptyState url Undefined) = Inl (HTTPError 503)"
  by (simp add: makeAPICall_def failing_def emptyState_def default_arg_def response_ok_def)

theorem C5_geocodeLocation_never_raises_witness:
  "fst (geocodeLocation examplePlatform failing emptyState (Str ''Arlington, VA'')) = Inr None \<and>
   fst (geocodeLocation examplePlatform (answering 0 (Arr [])) emptyState (Str ''Arlington, VA''))
     = Inr None \<and>
   fst (geocodeLocation examplePlatform
          (answering 0 (Arr [Obj [(''lat'', Str ''38.88''), (''lon'', Str ''-77.09'')]]))
          emptyState (Str ''Arlington, VA''))
     = Inr (Some \<lparr>lat = parseFloat examplePlatform ''38.88'',
                  lng = parseFloat examplePlatform ''-77.09''\<rparr>)"
proof -
  let ?url = "nominatim @ ''?'' @
              urlencode examplePlatform
                [(''q'', ''Arlington, VA''), (''format'', ''json''), (''limit'', ''1'')]"
  have u: "geocodeUrl examplePlatform (Str ''Arlington, VA'') = Inr ?url"
    by (rule geocodeUrl_string)
  have 1: "fst (makeAPICall failing emptyState ?url Undefined) = Inl (HTTPError 503)"
    by (rule failing_call_undefined)
  have 2: "fst (makeAPICall (answering 0 (Arr [])) emptyState ?url Undefined) = Inr (Arr [])"
    by (rule answering_call)
  have 3: "fst (makeAPICall
                 (answering 0 (Arr [Obj [(''lat'', Str ''38.88''), (''lon'', Str ''-77.09'')]]))
                 emptyState ?url Undefined) =
             Inr (Arr (Obj [(''lat'', Str ''38.88''), (''lon'', Str ''-77.09'')] # []))"
    by (rule answering_call)
  have 4: "map_of [(''lat'', Str ''38.88''), (''lon'', Str ''-77.09'')] ''lat'' = Some (Str ''38.88'')"
          "map_of [(''lat'', Str ''38.88''), (''lon'', Str ''-77.09'')] ''lon'' = Some (Str ''-77.09'')"
    by simp_all
  from C5_geocodeLocation_never_raises
          [of examplePlatform failing emptyState "''Arlington, VA''" ?url "HTTPError 503"] u 1
  have a: "fst (geocodeLocation examplePlatform failing emptyState (Str ''Arlington, VA'')) =
             Inr None"
    by blast
  from C5_geocodeLocation_never_raises
          [of examplePlatform "answering 0 (Arr [])" emptyState "''Arlington, VA''" ?url] u 2
  have b: "fst (geocodeLocation examplePlatform (answering 0 (Arr [])) emptyState
                  (Str ''Arlington, VA'')) = Inr None"
    by blast
  from C5_geocodeLocation_never_raises
          [of examplePlatform
              "answering 0 (Arr [Obj [(''lat'', Str ''38.88''), (''lon'', Str ''-77.09'')]])"
              emptyState "''Arlington, VA''" ?url _
              "[(''lat'', Str ''38.88''), (''lon'', Str ''-77.09'')]" "[]" "''38.88''" "''-77.09''"]
       u 3 4
  have c: "fst (geocodeLocation examplePlatform
          (answering 0 (Arr [Obj [(''lat'', Str ''38.88''), (''lon'', Str ''-77.09'')]]))
          emptyState (Str ''Arlington, VA''))
     = Inr (Some \<lparr>lat = parseFloat examplePlatform ''38.88'',
                  lng = parseFloat examplePlatform ''-77.09''\<rparr>)"
    by blast
  from a b c show ?thesis by blast
qed

text \<open>
  C10, as amended. When the provider answers with a non-empty array,
  \<^verbatim>\<open>geocodeLocation\<close> gives \<^verbatim>\<open>null\<close> exactly when the first element is \<^verbatim>\<open>null\<close> (or
  \<^verbatim>\<open>undefined\<close>) or the conversion of its \<^verbatim>\<open>lat\<close> or \<^verbatim>\<open>lon\<close> to a string throws. In every
  other case it gives a point whose components are \<^verbatim>\<open>parseFloat\<close> of the two strings,
  whatever they are: a lacking field is \<^verbatim>\<open>undefined\<close> and is read as the string
  \<^verbatim>\<open>undefined\<close>.
\<close>

theorem C10_point_for_nonempty_array:
  fixes pf :: "'f platform"
  assumes "geocodeUrl pf (Str address) = Inr url"
      and "fst (makeAPICall env st url Undefined) = Inr (Arr (first # rest))"
  shows
    "(fst (geocodeLocation pf env st (Str address)) = Inr None) =
       (first = Null \<or> first = Undefined \<or>
        (\<exists>la e. get_prop first ''lat'' = Inr la \<and> toString la = Inl e) \<or>
        (\<exists>lo e. get_prop first ''lon'' = Inr lo \<and> toString lo = Inl e)) \<and>
     (\<forall>la lo a b. get_prop first ''lat'' = Inr la \<and> toString la = Inr a \<and>
                  get_prop first ''lon'' = Inr lo \<and> toString lo = Inr b \<longrightarrow>
        fst (geocodeLocation pf env st (Str address)) =
          Inr (Some \<lparr>lat = parseFloat pf a, lng = parseFloat pf b\<rparr>)) \<and>
     (first = Obj props \<and> map_of props ''lat'' = None \<and> map_of props ''lon'' = None \<longrightarrow>
        fst (geocodeLocation pf env st (Str address)) =
          Inr (Some \<lparr>lat = parseFloat pf ''undefined'', lng = parseFloat pf ''undefined''\<rparr>))"
proof -
  have g: "fst (geocodeLocation pf env st (Str address)) =
        (case firstPoint pf (Arr (first # rest)) of Inl e \<Rightarrow> Inr None | Inr p \<Rightarrow> Inr p)"
    using assms by (simp add: geocodeLocation_string geocodeUrl_string)
  show ?thesis
    by (cases first rule: get_prop_cases [where k = "''lat''"];
        cases first rule: get_prop_cases [where k = "''lon''"])
       (auto simp: g firstPoint_nonempty js_parseFloat_def split: sum.splits)
qed

theorem C10_point_for_nonempty_array_witness:
  "fst (geocodeLocation examplePlatform
          (answering 0 (Arr [Obj [(''lat'', Str ''north'')]])) emptyState (Str ''Arlington, VA''))
     = Inr (Some \<lparr>lat = ''north'', lng = ''undefined''\<rparr>)"
proof -
  have u: "geocodeUrl examplePlatform (Str ''Arlington, VA'') =
      Inr (nominatim @ ''?'' @
           urlencode examplePlatform
             [(''q'', ''Arlington, VA''), (''format'', ''json''), (''limit'', ''1'')])"
    by (rule geocodeUrl_string)
  have c: "fst (makeAPICall (answering 0 (Arr [Obj [(''lat'', Str ''north'')]])) emptyState
             (nominatim @ ''?'' @
              urlencode examplePlatform
                [(''q'', ''Arlington, VA''), (''format'', ''json''), (''limit'', ''1'')])
             Undefined) = Inr (Arr (Obj [(''lat'', Str ''north'')] # []))"
    by (rule answering_call)
  have "get_prop (Obj [(''lat'', Str ''north'')]) ''lat'' = Inr (Str ''north'') \<and>
        toString (Str ''north'') = Inr ''north'' \<and>
        get_prop (Obj [(''lat'', Str ''north'')]) ''lon'' = Inr Undefined \<and>
        toString Undefined = Inr ''undefined''"
    by simp
  with C10_point_for_nonempty_array [OF u c]
  have "fst (geocodeLocation examplePlatform
          (answering 0 (Arr [Obj [(''lat'', Str ''north'')]])) emptyState (Str ''Arlington, VA''))
     = Inr (Some \<lparr>lat = parseFloat examplePlatform ''north'',
                  lng = parseFloat examplePlatform ''undefined''\<rparr>)"
    by blast
  then show ?thesis by (simp add: examplePlatform_def)
qed

text \<open>
  The claim as stated fails: the array \<^verbatim>\<open>[null]\<close> is not empty, and reading \<^verbatim>\<open>lat\<close> of
  its first element throws inside the \<^verbatim>\<open>try\<close>, so the result is \<^verbatim>\<open>null\<close>.
\<close>

theorem C10_counterexample:
  "fst (makeAPICall (answering 0 (Arr [Null])) emptyState
          (nominatim @ ''?'' @
           urlencode examplePlatform
             [(''q'', ''Arlington, VA''), (''format'', ''json''), (''limit'', ''1'')])
          Undefined) = Inr (Arr [Null]) \<and>
   fst (geocodeLocation examplePlatform (answering 0 (Arr [Null])) emptyState
          (Str ''Arlington, VA'')) = Inr None"
  by (simp add: geocodeLocation_string answering_call firstPoint_nonempty)

subsection \<open>The cache\<close>

lemma makeAPICall_cached:
  assumes "cache st (cacheKey url options) = Some entry"
      and "now_check env - timestamp entry < cacheTimeout"
  shows "makeAPICall env st url options = (Inr (data entry), st)"
  using assms by (simp add: makeAPICall_def Let_def)

lemma makeAPICall_fetches:
  assumes "\<not> live st (cacheKey url options) (now_check env)"
      and "options \<noteq> Null"
  shows "fetchLog (snd (makeAPICall env st url options)) = fetchLog st @ [url]"
  using assms
  by (cases "default_arg options")
     (auto simp: makeAPICall_def Let_def live_def default_arg_def
           split: option.splits fetch_result.splits if_splits)

lemma makeAPICall_stores:
  assumes "\<not> live st (cacheKey url options) (now_check env)"
      and "options \<noteq> Null"
      and "fetched env = Response status (Some d)" and "response_ok status"
  shows "fst (makeAPICall env st url options) = Inr d"
    and "cache (snd (makeAPICall env st url options)) =
           (cache st)(cacheKey url options \<mapsto> \<lparr>data = d, timestamp = now_store env\<rparr>)"
  using assms
  by (cases "default_arg options";
      auto simp: makeAPICall_def Let_def live_def default_arg_def
           split: option.splits fetch_result.splits if_splits)+

lemma makeAPICall_fetched_result:
  assumes "makeAPICall env st url options = (Inr d, st')" and "fetchLog st' \<noteq> fetchLog st"
  shows "fetchLog st' = fetchLog st @ [url]"
    and "cache st' = (cache st)(cacheKey url options \<mapsto> \<lparr>data = d, timestamp = now_store env\<rparr>)"
  using assms
  by (auto simp: makeAPICall_def Let_def
           split: option.splits fetch_result.splits if_splits sum.splits)

lemma makeAPICall_fetched_options:
  assumes "fetchLog (snd (makeAPICall env st url options)) \<noteq> fetchLog st"
  shows "options \<noteq> Null"
  using assms
  by (auto simp: makeAPICall_def Let_def default_arg_def
           split: option.splits fetch_result.splits if_splits sum.splits)

lemma makeAPICall_fails:
  assumes "\<not> live st (cacheKey url options) (now_check env)"
      and "fetched env = Rejected \<or> (\<exists>status body. fetched env = Response status body \<and>
             (\<not> response_ok status \<or> body = None))"
  shows "\<exists>e. fst (makeAPICall env st url options) = Inl e"
  using assms
  by (auto simp: makeAPICall_def Let_def live_def
           split: option.splits fetch_result.splits if_splits sum.splits)

text \<open>The call is its two parts, one after the other.\<close>

lemma makeAPICall_two_parts:
  "makeAPICall env st url options =
     (case makeAPICall_start (now_check env) st url options of
        (Returned r, st') \<Rightarrow> (r, st')
      | (Awaiting key, st') \<Rightarrow> makeAPICall_finish (fetched env) (now_store env) key st')"
  by (simp add: makeAPICall_def makeAPICall_start_def makeAPICall_finish_def Let_def
           split: option.splits sum.splits fetch_result.splits)

text \<open>
  A call that starts while another call with the same URL and options is waiting for its
  answer finds no entry either, and calls \<^verbatim>\<open>fetch\<close> as well.
\<close>

lemma makeAPICall_start_twice:
  assumes "cache st (cacheKey url options) = None" and "options \<noteq> Null"
  shows "makeAPICall_start t1 st url options =
           (Awaiting (cacheKey url options), st\<lparr>fetchLog := fetchLog st @ [url]\<rparr>)"
    and "makeAPICall_start t2 (snd (makeAPICall_start t1 st url options)) url options =
           (Awaiting (cacheKey url options), st\<lparr>fetchLog := fetchLog st @ [url, url]\<rparr>)"
  using assms
  by (cases "default_arg options";
      simp add: makeAPICall_start_def Let_def default_arg_def split: if_splits)+

text \<open>
  C2, as amended. A first call that goes to the network and returns a payload is followed,
  once it has returned and while the stored entry is less than ten minutes old, by a call
  that returns the same payload and leaves the state as it is: \<^verbatim>\<open>fetch\<close> was called once.
  The two calls come one after the other, the second on the state that the first has left.
  A call made when the entry is ten minutes old or older calls \<^verbatim>\<open>fetch\<close> again, and a
  successful result replaces the entry. A call that fails, for whatever reason, leaves the
  cache as it was; a rejected \<^verbatim>\<open>fetch\<close>, a status outside 200..299 and a body that is not
  JSON all make the call fail.
\<close>

theorem C2_cache_policy:
  assumes first: "makeAPICall env1 st url options = (Inr d, st1)"
      and fetched1: "fetchLog st1 \<noteq> fetchLog st"
  shows
    "fetchLog st1 = fetchLog st @ [url] \<and>
     (now_check env2 - now_store env1 < cacheTimeout \<longrightarrow>
        makeAPICall env2 st1 url options = (Inr d, st1)) \<and>
     (now_check env1 \<le> now_store env1 \<and> now_check env2 - now_check env1 < cacheTimeout \<longrightarrow>
        makeAPICall env2 st1 url options = (Inr d, st1)) \<and>
     (cacheTimeout \<le> now_check env3 - now_store env1 \<longrightarrow>
        fetchLog (snd (makeAPICall env3 st1 url options)) = fetchLog st @ [url, url] \<and>
        (fetched env3 = Response status (Some d') \<and> response_ok status \<longrightarrow>
           fst (makeAPICall env3 st1 url options) = Inr d' \<and>
           cache (snd (makeAPICall env3 st1 url options)) (cacheKey url options) =
             Some \<lparr>data = d', timestamp = now_store env3\<rparr>)) \<and>
     (fst (makeAPICall env st0 url options) = Inl e \<longrightarrow>
        cache (snd (makeAPICall env st0 url options)) = cache st0) \<and>
     (\<not> live st0 (cacheKey url options) (now_check env) \<and>
      (fetched env = Rejected \<or>
       (\<exists>status body. fetched env = Response status body \<and>
                       (\<not> response_ok status \<or> body = None))) \<longrightarrow>
        (\<exists>e. fst (makeAPICall env st0 url options) = Inl e))"
proof -
  note r = makeAPICall_fetched_result [OF first fetched1]
  have opts: "options \<noteq> Null"
    using makeAPICall_fetched_options [of env1 st url options] first fetched1 by simp
  have entry: "cache st1 (cacheKey url options) = Some \<lparr>data = d, timestamp = now_store env1\<rparr>"
    by (simp add: r(2))
  have second: "makeAPICall env2 st1 url options = (Inr d, st1)"
    if "now_check env2 - now_store env1 < cacheTimeout"
    using makeAPICall_cached [OF entry, of env2] that by simp
  have expired: "\<not> live st1 (cacheKey url options) (now_check env3)"
    if "cacheTimeout \<le> now_check env3 - now_store env1"
    using that by (simp add: live_def entry)
  have third: "fetchLog (snd (makeAPICall env3 st1 url options)) = fetchLog st @ [url, url]"
    if "cacheTimeout \<le> now_check env3 - now_store env1"
    using makeAPICall_fetches [OF expired [OF that] opts] by (simp add: r(1))
  have replaced: "fst (makeAPICall env3 st1 url options) = Inr d' \<and>
           cache (snd (makeAPICall env3 st1 url options)) (cacheKey url options) =
             Some \<lparr>data = d', timestamp = now_store env3\<rparr>"
    if "cacheTimeout \<le> now_check env3 - now_store env1"
       "fetched env3 = Response status (Some d')" "response_ok status"
    using makeAPICall_stores [OF expired [OF that(1)] opts that(2,3)] by simp
  show ?thesis
    using r(1) second third replaced makeAPICall_failure_keeps_cache [of env st0 url options e]
          makeAPICall_fails [of st0 url options env]
    by (intro conjI impI) (auto simp del: split_paired_Ex)
qed

lemma cacheKey_u: "cacheKey ''u'' Undefined = ''u{}''"
  by (simp add: cacheKey_def default_arg_def)

theorem C2_cache_policy_witness:
  "makeAPICall (answering 0 (Str ''one'')) emptyState ''u'' Undefined =
     (Inr (Str ''one''), cachedState) \<and>
   fetchLog cachedState = fetchLog emptyState @ [''u''] \<and>
   makeAPICall (answering 599999 (Str ''two'')) cachedState ''u'' Undefined =
     (Inr (Str ''one''), cachedState) \<and>
   fetchLog (snd (makeAPICall (answering 600150 (Str ''two'')) cachedState ''u'' Undefined)) =
     [''u'', ''u''] \<and>
   fst (makeAPICall (answering 600150 (Str ''two'')) cachedState ''u'' Undefined) =
     Inr (Str ''two'') \<and>
   cache (snd (makeAPICall (answering 600150 (Str ''two'')) cachedState ''u'' Undefined)) ''u{}'' =
     Some \<lparr>data = Str ''two'', timestamp = 600300\<rparr> \<and>
   fst (makeAPICall failing emptyState ''u'' Undefined) = Inl (HTTPError 503) \<and>
   cache (snd (makeAPICall failing emptyState ''u'' Undefined)) = cache emptyState"
proof -
  have first: "makeAPICall (answering 0 (Str ''one'')) emptyState ''u'' Undefined =
     (Inr (Str ''one''), cachedState)"
    by (simp add: makeAPICall_def cacheKey_u answering_def emptyState_def cachedState_def
                  default_arg_def response_ok_def)
  have log: "fetchLog cachedState \<noteq> fetchLog emptyState"
    by (simp add: cachedState_def emptyState_def)
  have t2: "now_check (answering 599999 (Str ''two'')) - now_store (answering 0 (Str ''one''))
              < cacheTimeout"
    by (simp add: answering_def cacheTimeout_def)
  have t3: "cacheTimeout \<le>
              now_check (answering 600150 (Str ''two'')) - now_store (answering 0 (Str ''one''))"
    by (simp add: answering_def cacheTimeout_def)
  have ok: "fetched (answering 600150 (Str ''two'')) = Response 200 (Some (Str ''two'')) \<and>
            response_ok 200"
    by (simp add: answering_def response_ok_def)
  have f: "fst (makeAPICall failing emptyState ''u'' Undefined) = Inl (HTTPError 503)"
    by (rule failing_call_undefined)
  from C2_cache_policy [OF first log,
         where ?env2.0 = "answering 599999 (Str ''two'')"
           and ?env3.0 = "answering 600150 (Str ''two'')"
           and status = 200 and d' = "Str ''two''"
           and env = failing and ?st0.0 = emptyState and e = "HTTPError 503"]
       t2 t3 ok f
  have "fetchLog cachedState = fetchLog emptyState @ [''u''] \<and>
   makeAPICall (answering 599999 (Str ''two'')) cachedState ''u'' Undefined =
     (Inr (Str ''one''), cachedState) \<and>
   fetchLog (snd (makeAPICall (answering 600150 (Str ''two'')) cachedState ''u'' Undefined)) =
     fetchLog emptyState @ [''u'', ''u''] \<and>
   fst (makeAPICall (answering 600150 (Str ''two'')) cachedState ''u'' Undefined) =
     Inr (Str ''two'') \<and>
   cache (snd (makeAPICall (answering 600150 (Str ''two'')) cachedState ''u'' Undefined))
       (cacheKey ''u'' Undefined) =
     Some \<lparr>data = Str ''two'', timestamp = now_store (answering 600150 (Str ''two''))\<rparr> \<and>
   cache (snd (makeAPICall failing emptyState ''u'' Undefined)) = cache emptyState"
    by blast
  with first f show ?thesis
    by (simp add: cacheKey_u answering_def emptyState_def)
qed

text \<open>
  The claim as stated fails when the two calls overlap. The second call starts within ten
  minutes of the first, with the same URL and options, while the first is waiting for its
  answer: the cache has no entry yet, so both call \<^verbatim>\<open>fetch\<close>, and the second returns its own
  payload, not the one of the first.
\<close>

theorem C2_counterexample:
  "fst firstStarted = Awaiting (cacheKey ''u'' Undefined) \<and>
   fst secondStarted = Awaiting (cacheKey ''u'' Undefined) \<and>
   fst firstFinished = Inr (Str ''one'') \<and>
   fst secondFinished = Inr (Str ''two'') \<and>
   fetchLog (snd secondFinished) = [''u'', ''u''] \<and>
   250 - 0 < cacheTimeout"
  by (simp add: firstStarted_def secondStarted_def firstFinished_def secondFinished_def
                makeAPICall_start_def makeAPICall_finish_def cacheKey_u emptyState_def
                default_arg_def response_ok_def cacheTimeout_def)

subsection \<open>All sources\<close>

text \<open>
  The three searches run side by side, and each reads and writes the cache under a key of
  its own: the three base URLs differ, so no two of the three keys are equal, whatever the
  location, the filters and the options.
\<close>

lemma source_urls:
  "volunteerMatchUrl pf location filters = Inr u1 \<Longrightarrow> \<exists>q. u1 = volunteerMatch_baseUrl @ q"
  "justServeUrl pf location filters = Inr u2 \<Longrightarrow> \<exists>q. u2 = justServe_baseUrl @ q"
  "unitedWayUrl pf location filters = Inr u3 \<Longrightarrow> \<exists>q. u3 = unitedWay_baseUrl @ q"
  by (auto simp: volunteerMatchUrl_def justServeUrl_def unitedWayUrl_def split: sum.splits)

lemma source_keys_differ:
  assumes "volunteerMatchUrl pf location filters = Inr u1"
      and "justServeUrl pf location filters = Inr u2"
      and "unitedWayUrl pf location filters = Inr u3"
  shows "cacheKey u1 o1 \<noteq> cacheKey u2 o2"
    and "cacheKey u1 o1 \<noteq> cacheKey u3 o3"
    and "cacheKey u2 o2 \<noteq> cacheKey u3 o3"
proof -
  obtain q1 q2 q3 where u: "u1 = volunteerMatch_baseUrl @ q1" "u2 = justServe_baseUrl @ q2"
      "u3 = unitedWay_baseUrl @ q3"
    using source_urls(1) [OF assms(1)] source_urls(2) [OF assms(2)] source_urls(3) [OF assms(3)]
    by blast
  show "cacheKey u1 o1 \<noteq> cacheKey u2 o2" "cacheKey u1 o1 \<noteq> cacheKey u3 o3"
       "cacheKey u2 o2 \<noteq> cacheKey u3 o3"
    by (simp_all add: u cacheKey_def volunteerMatch_baseUrl_def justServe_baseUrl_def
                      unitedWay_baseUrl_def)
qed






lemma fulfilled_all_rejected: "fulfilled [Inl a, Inl b, Inl c] = []"
  by simp







lemma show_int_20: "show_int 20 = ''20''"
  by (simp add: show_int_def dec.simps digit_char_def)







subsection \<open>The scraper\<close>

lemma scrapeElement_title:
  "scrapeElement env selectors url element index = Inr opportunity \<Longrightarrow>
   \<exists>t. get_prop opportunity ''title'' = Inr (Str t)"
  by (auto simp: scrapeElement_def split: sum.splits)

lemma scrapeElements_result:
  "scrapeElements env selectors url elements index acc = Inr out \<Longrightarrow>
   \<exists>records. length records = length elements \<and>
     (\<forall>k < length elements.
        scrapeElement env selectors url (elements ! k) (index + k) = Inr (records ! k)) \<and>
     out = acc @ filter (\<lambda>r. get_prop r ''title'' \<noteq> Inr (Str [])) records"
proof (induction elements arbitrary: index acc)
  case Nil
  then show ?case by simp
next
  case (Cons element elements)
  from Cons.prems obtain r where
    r: "scrapeElement env selectors url element index = Inr r"
    by (cases "scrapeElement env selectors url element index") auto
  then obtain t where t: "get_prop r ''title'' = Inr (Str t)"
    using scrapeElement_title by blast
  from Cons.prems r t
  have "scrapeElements env selectors url elements (Suc index)
          (if t \<noteq> [] then acc @ [r] else acc) = Inr out"
    by simp
  from Cons.IH [OF this] obtain records where
    len: "length records = length elements"
    and each: "\<forall>k < length elements.
        scrapeElement env selectors url (elements ! k) (Suc index + k) = Inr (records ! k)"
    and out: "out = (if t \<noteq> [] then acc @ [r] else acc) @
                filter (\<lambda>r. get_prop r ''title'' \<noteq> Inr (Str [])) records"
    by blast
  have "\<forall>k < length (element # elements).
        scrapeElement env selectors url ((element # elements) ! k) (index + k)
          = Inr ((r # records) ! k)"
    using r each by (auto simp: nth_Cons split: nat.splits)
  moreover have "out = acc @ filter (\<lambda>r. get_prop r ''title'' \<noteq> Inr (Str [])) (r # records)"
    using out t by simp
  ultimately show ?case
    using len by (intro exI [of _ "r # records"]) simp
qed

lemma scrapeElements_determined:
  assumes "length records = length elements"
      and "\<forall>k < length elements.
             scrapeElement env selectors url (elements ! k) (index + k) = Inr (records ! k)"
  shows "scrapeElements env selectors url elements index acc =
           Inr (acc @ filter (\<lambda>r. get_prop r ''title'' \<noteq> Inr (Str [])) records)"
  using assms
proof (induction elements arbitrary: index acc records)
  case Nil
  then show ?case by simp
next
  case (Cons element elements)
  then obtain r rs where records: "records = r # rs"
    by (cases records) auto
  from Cons.prems(2) have r: "scrapeElement env selectors url element index = Inr r"
    by (auto simp: records dest: spec [of _ 0])
  then obtain t where t: "get_prop r ''title'' = Inr (Str t)"
    using scrapeElement_title by blast
  have "\<forall>k < length elements.
          scrapeElement env selectors url (elements ! k) (Suc index + k) = Inr (rs ! k)"
  proof (intro allI impI)
    fix k assume "k < length elements"
    then have "Suc k < length (element # elements)" by simp
    from Cons.prems(2) [rule_format, OF this] show
      "scrapeElement env selectors url (elements ! k) (Suc index + k) = Inr (rs ! k)"
      by (simp add: records)
  qed
  with Cons.prems(1) have
    "scrapeElements env selectors url elements (Suc index)
       (if t \<noteq> [] then acc @ [r] else acc) =
     Inr ((if t \<noteq> [] then acc @ [r] else acc) @
          filter (\<lambda>r. get_prop r ''title'' \<noteq> Inr (Str [])) rs)"
    by (intro Cons.IH) (simp_all add: records)
  then show ?case
    using r t by (simp add: records)
qed

lemma scrapeSite_titles:
  "opportunity \<in> set (scrapeSite env url selectors) \<Longrightarrow>
   \<exists>t. get_prop opportunity ''title'' = Inr (Str t) \<and> t \<noteq> []"
proof -
  assume m: "opportunity \<in> set (scrapeSite env url selectors)"
  then obtain out where out: "scrapeTry env url selectors = Inr out" "opportunity \<in> set out"
    by (cases "scrapeTry env url selectors") (auto simp: scrapeSite_def)
  then obtain elements where "scrapeElements env selectors url elements 0 [] = Inr out"
    by (auto simp: scrapeTry_def split: sum.splits fetch_result.splits option.splits)
  from scrapeElements_result [OF this] obtain records where
    each: "\<forall>k < length elements.
        scrapeElement env selectors url (elements ! k) (0 + k) = Inr (records ! k)"
    and len: "length records = length elements"
    and o: "out = [] @ filter (\<lambda>r. get_prop r ''title'' \<noteq> Inr (Str [])) records"
    by blast
  from out(2) o have in_records: "opportunity \<in> set records"
    and nonempty: "get_prop opportunity ''title'' \<noteq> Inr (Str [])"
    by auto
  from in_records obtain k where "k < length records" "records ! k = opportunity"
    by (auto simp: in_set_conv_nth)
  with each len have "scrapeElement env selectors url (elements ! k) (0 + k) = Inr opportunity"
    by auto
  from scrapeElement_title [OF this] nonempty show ?thesis
    by auto
qed

text \<open>
  C9. Every record that \<^verbatim>\<open>scrapeSite\<close> returns has a title that is not empty, and the
  records returned are exactly the extracted records with such a title, in order. Whenever
  the \<^verbatim>\<open>try\<close> block throws, in particular when \<^verbatim>\<open>fetch\<close> is rejected or the body is not
  JSON, the result is the empty list; the function has no other outcome.
\<close>

theorem C9_scrapeSite_titles_and_errors:
  "(\<forall>opportunity \<in> set (scrapeSite env url selectors).
      \<exists>t. get_prop opportunity ''title'' = Inr (Str t) \<and> t \<noteq> []) \<and>
   (scrapeTry env url selectors = Inl e \<longrightarrow> scrapeSite env url selectors = []) \<and>
   (response env = Rejected \<longrightarrow> scrapeSite env url selectors = []) \<and>
   (response env = Response status None \<longrightarrow> scrapeSite env url selectors = []) \<and>
   (response env = Response status (Some d) \<and> get_prop d ''contents'' = Inr contents \<and>
    get_prop selectors ''container'' = Inr container \<and> toString container = Inr sel \<and>
    matches env contents sel = Inr elements \<and> length records = length elements \<and>
    (\<forall>k < length elements.
       scrapeElement env selectors url (elements ! k) k = Inr (records ! k)) \<longrightarrow>
      scrapeSite env url selectors =
        filter (\<lambda>r. get_prop r ''title'' \<noteq> Inr (Str [])) records)"
proof (intro conjI impI ballI)
  fix opportunity assume "opportunity \<in> set (scrapeSite env url selectors)"
  then show "\<exists>t. get_prop opportunity ''title'' = Inr (Str t) \<and> t \<noteq> []"
    by (rule scrapeSite_titles)
next
  assume "scrapeTry env url selectors = Inl e"
  then show "scrapeSite env url selectors = []" by (simp add: scrapeSite_def)
next
  assume "response env = Rejected"
  then show "scrapeSite env url selectors = []" by (simp add: scrapeSite_def scrapeTry_def)
next
  assume "response env = Response status None"
  then show "scrapeSite env url selectors = []" by (simp add: scrapeSite_def scrapeTry_def)
next
  assume h: "response env = Response status (Some d) \<and> get_prop d ''contents'' = Inr contents \<and>
    get_prop selectors ''container'' = Inr container \<and> toString container = Inr sel \<and>
    matches env contents sel = Inr elements \<and> length records = length elements \<and>
    (\<forall>k < length elements.
       scrapeElement env selectors url (elements ! k) k = Inr (records ! k))"
  then have "scrapeElements env selectors url elements 0 [] =
               Inr ([] @ filter (\<lambda>r. get_prop r ''title'' \<noteq> Inr (Str [])) records)"
    by (intro scrapeElements_determined) simp_all
  with h show "scrapeSite env url selectors =
        filter (\<lambda>r. get_prop r ''title'' \<noteq> Inr (Str [])) records"
    by (simp add: scrapeSite_def scrapeTry_def)
qed

lemma examplePage_scraped:
  "scrapeSite examplePage ''https://example.org'' exampleSelectors = [scrapedCard]"
  by (simp add: scrapeSite_def scrapeTry_def examplePage_def exampleSelectors_def
                scrapeElement_def extractText_def extractLink_def querySelector_def
                untitledCard_def titledCard_def scrapedCard_def show_int_def dec.simps
                digit_char_def)

theorem C9_scrapeSite_titles_and_errors_witness:
  "scrapedCard \<in> set (scrapeSite examplePage ''https://example.org'' exampleSelectors) \<and>
   (\<exists>t. get_prop scrapedCard ''title'' = Inr (Str t) \<and> t \<noteq> []) \<and>
   response offlinePage = Rejected \<and>
   scrapeSite offlinePage ''https://example.org'' exampleSelectors = []"
proof -
  have m: "scrapedCard \<in> set (scrapeSite examplePage ''https://example.org'' exampleSelectors)"
    by (simp add: examplePage_scraped)
  have r: "response offlinePage = Rejected"
    by (simp add: offlinePage_def)
  from C9_scrapeSite_titles_and_errors
         [of examplePage "''https://example.org''" exampleSelectors] m
  have 1: "\<exists>t. get_prop scrapedCard ''title'' = Inr (Str t) \<and> t \<noteq> []"
    by blast
  from C9_scrapeSite_titles_and_errors
         [of offlinePage "''https://example.org''" exampleSelectors] r
  have 2: "scrapeSite offlinePage ''https://example.org'' exampleSelectors = []"
    by blast
  from m r 1 2 show ?thesis by blast
qed

subsection \<open>Deduplication\<close>

lemma keepFirst_positions:
  "length keys = length xs \<Longrightarrow>
   keepFirst seen (zip keys xs) =
     map ((!) xs) (filter (\<lambda>j. keys ! j \<notin> seen \<union> set (take j keys)) [0..<length xs])"
proof (induction xs arbitrary: keys seen)
  case Nil
  then show ?case by simp
next
  case (Cons x xs)
  then obtain k ks where keys: "keys = k # ks" and len: "length ks = length xs"
    by (cases keys) auto
  define P where "P = (\<lambda>j. (k # ks) ! j \<notin> seen \<union> set (take j (k # ks)))"
  have upt: "[0..<length (x # xs)] = 0 # map Suc [0..<length xs]"
    by (simp add: upt_conv_Cons map_Suc_upt del: upt_Suc)
  have P0: "P 0 = (k \<notin> seen)"
    by (simp add: P_def)
  have PSuc: "P \<circ> Suc = (\<lambda>j. ks ! j \<notin> insert k seen \<union> set (take j ks))"
    by (auto simp: P_def fun_eq_iff)
  have "map ((!) (x # xs)) (filter P [0..<length (x # xs)]) =
          (if P 0 then [x] else []) @ map ((!) xs) (filter (P \<circ> Suc) [0..<length xs])"
    unfolding upt by (simp add: filter_map comp_def)
  also have "\<dots> = (if k \<in> seen then [] else [x]) @ keepFirst (insert k seen) (zip ks xs)"
    unfolding P0 PSuc Cons.IH [OF len] by simp
  also have "\<dots> = keepFirst seen (zip keys (x # xs))"
    by (simp add: keys insert_absorb)
  finally show ?case
    by (simp add: P_def keys)
qed

lemma keepFirst_append:
  "length ks1 = length xs1 \<Longrightarrow>
   keepFirst seen (zip (ks1 @ ks2) (xs1 @ xs2)) =
     keepFirst seen (zip ks1 xs1) @ keepFirst (seen \<union> set ks1) (zip ks2 xs2)"
proof (induction xs1 arbitrary: ks1 seen)
  case Nil
  then show ?case by simp
next
  case (Cons x xs1)
  then obtain k ks where "ks1 = k # ks" "length ks = length xs1"
    by (cases ks1) auto
  then show ?case
    using Cons.IH [of ks] by (auto simp: insert_absorb)
qed

lemma addOpportunities_keepFirst:
  "addOpportunities opps (combined, seen) = Inr (combined', seen') \<Longrightarrow>
   \<exists>keys. map oppKey opps = map Inr keys \<and>
          combined' = combined @ keepFirst seen (zip keys opps) \<and>
          seen' = seen \<union> set keys"
proof (induction opps arbitrary: combined seen)
  case Nil
  then show ?case by simp
next
  case (Cons opp opps)
  from Cons.prems obtain key where key: "oppKey opp = Inr key"
    by (cases "oppKey opp") auto
  show ?case
  proof (cases "key \<in> seen")
    case True
    with Cons.prems key have "addOpportunities opps (combined, seen) = Inr (combined', seen')"
      by simp
    from Cons.IH [OF this] obtain keys where
      "map oppKey opps = map Inr keys" "combined' = combined @ keepFirst seen (zip keys opps)"
      "seen' = seen \<union> set keys"
      by blast
    with True key show ?thesis
      by (intro exI [of _ "key # keys"]) auto
  next
    case False
    with Cons.prems key
    have "addOpportunities opps (combined @ [opp], insert key seen) = Inr (combined', seen')"
      by simp
    from Cons.IH [OF this] obtain keys where
      "map oppKey opps = map Inr keys"
      "combined' = (combined @ [opp]) @ keepFirst (insert key seen) (zip keys opps)"
      "seen' = insert key seen \<union> set keys"
      by blast
    with False key show ?thesis
      by (intro exI [of _ "key # keys"]) auto
  qed
qed

lemma opportunitiesOf_falsy:
  "get_prop result ''opportunities'' = Inr v \<Longrightarrow> \<not> truthy v \<Longrightarrow> opportunitiesOf result = []"
  by (cases v) (auto simp: opportunitiesOf_def)

lemma opportunitiesOf_array:
  "get_prop result ''opportunities'' = Inr (Arr opps) \<Longrightarrow> opportunitiesOf result = opps"
  by (simp add: opportunitiesOf_def)

lemma addResults_keepFirst:
  "addResults results (combined, seen) = Inr (combined', seen') \<Longrightarrow>
   \<exists>keys. map oppKey (flattened results) = map Inr keys \<and>
          combined' = combined @ keepFirst seen (zip keys (flattened results)) \<and>
          seen' = seen \<union> set keys"
proof (induction results arbitrary: combined seen)
  case Nil
  then show ?case by (simp add: flattened_def)
next
  case (Cons result results)
  from Cons.prems obtain v where v: "get_prop result ''opportunities'' = Inr v"
    by (cases "get_prop result ''opportunities''") auto
  show ?case
  proof (cases "truthy v")
    case False
    with Cons.prems v have "addResults results (combined, seen) = Inr (combined', seen')"
      by simp
    from Cons.IH [OF this] False v show ?thesis
      by (simp add: flattened_def opportunitiesOf_falsy)
  next
    case True
    with Cons.prems v obtain opps where opps: "v = Arr opps"
      by (cases v) auto
    with Cons.prems v obtain c1 s1 where
      inner: "addOpportunities opps (combined, seen) = Inr (c1, s1)"
      and rest: "addResults results (c1, s1) = Inr (combined', seen')"
      by (cases "addOpportunities opps (combined, seen)") auto
    from addOpportunities_keepFirst [OF inner] obtain ks1 where
      k1: "map oppKey opps = map Inr ks1" "c1 = combined @ keepFirst seen (zip ks1 opps)"
          "s1 = seen \<union> set ks1"
      by blast
    from Cons.IH [OF rest] obtain ks2 where
      k2: "map oppKey (flattened results) = map Inr ks2"
          "combined' = c1 @ keepFirst s1 (zip ks2 (flattened results))"
          "seen' = s1 \<union> set ks2"
      by blast
    have len: "length ks1 = length opps"
      using k1(1) by (metis length_map)
    have flat: "flattened (result # results) = opps @ flattened results"
      using v opps by (simp add: flattened_def opportunitiesOf_array)
    show ?thesis
      using k1 k2 keepFirst_append [OF len]
      by (intro exI [of _ "ks1 @ ks2"]) (auto simp: flat)
  qed
qed

lemma combineResults_positions:
  assumes "combineResults apiResults = Inr result"
  shows "\<exists>keys. map oppKey (flattened apiResults) = map Inr keys \<and>
           result = Obj [(''opportunities'',
                          Arr (map ((!) (flattened apiResults)) (firstOccurrences keys)))]"
proof -
  from assms obtain combined seen where
    "addResults apiResults ([], {}) = Inr (combined, seen)"
    and result: "result = Obj [(''opportunities'', Arr combined)]"
    by (auto simp: combineResults_def split: sum.splits)
  from addResults_keepFirst [OF this(1)] obtain keys where
    keys: "map oppKey (flattened apiResults) = map Inr keys"
    and combined: "combined = [] @ keepFirst {} (zip keys (flattened apiResults))"
    by blast
  have len: "length keys = length (flattened apiResults)"
    using keys by (metis length_map)
  show ?thesis
    using keys result combined keepFirst_positions [OF len, of "{}"]
    by (intro exI [of _ keys]) (simp add: firstOccurrences_def len)
qed

lemma oppKey_parts:
  "oppKey opp = Inr key \<Longrightarrow>
   \<exists>title organization t g.
     get_prop opp ''title'' = Inr title \<and> toString title = Inr t \<and>
     get_prop opp ''organization'' = Inr organization \<and> toString organization = Inr g \<and>
     key = t @ ''-'' @ g"
  by (auto simp: oppKey_def split: sum.splits)

lemma oppKey_same_pair:
  "get_prop a ''title'' = get_prop b ''title'' \<Longrightarrow>
   get_prop a ''organization'' = get_prop b ''organization'' \<Longrightarrow> oppKey a = oppKey b"
  unfolding oppKey_def by (erule ssubst, erule ssubst) (rule refl)

lemma firstOccurrences_member:
  "j < length keys \<Longrightarrow> (j \<in> set (firstOccurrences keys)) = (keys ! j \<notin> set (take j keys))"
  by (auto simp: firstOccurrences_def)

lemma keys_nth:
  "map oppKey flat = map Inr keys \<Longrightarrow> j < length keys \<Longrightarrow> oppKey (flat ! j) = Inr (keys ! j)"
  by (metis length_map nth_map)

text \<open>
  C1, as amended. When \<^verbatim>\<open>combineResults\<close> returns, every flattened opportunity has a key,
  the string of its title, a hyphen and the string of its organization, and the result holds
  the opportunities at the positions whose key does not occur earlier, in order. So an
  opportunity with the same title and organization as an earlier one is dropped, whatever its
  other fields; the first of them is kept exactly when no opportunity before it has the
  same key string.
\<close>

theorem C1_combineResults_first_key_wins:
  assumes "combineResults apiResults = Inr result"
  shows "\<exists>keys.
     map oppKey (flattened apiResults) = map Inr keys \<and>
     result = Obj [(''opportunities'',
                    Arr (map ((!) (flattened apiResults)) (firstOccurrences keys)))] \<and>
     (\<forall>j < length keys. \<exists>title organization t g.
        get_prop (flattened apiResults ! j) ''title'' = Inr title \<and> toString title = Inr t \<and>
        get_prop (flattened apiResults ! j) ''organization'' = Inr organization \<and>
        toString organization = Inr g \<and> keys ! j = t @ ''-'' @ g) \<and>
     (\<forall>i j. i < j \<and> j < length keys \<and>
        get_prop (flattened apiResults ! i) ''title'' =
          get_prop (flattened apiResults ! j) ''title'' \<and>
        get_prop (flattened apiResults ! i) ''organization'' =
          get_prop (flattened apiResults ! j) ''organization'' \<longrightarrow>
        j \<notin> set (firstOccurrences keys)) \<and>
     (\<forall>j < length keys.
        (j \<in> set (firstOccurrences keys)) = (keys ! j \<notin> set (take j keys)))"
proof -
  from combineResults_positions [OF assms] obtain keys where
    keys: "map oppKey (flattened apiResults) = map Inr keys"
    and result: "result = Obj [(''opportunities'',
                    Arr (map ((!) (flattened apiResults)) (firstOccurrences keys)))]"
    by blast
  have parts: "\<forall>j < length keys. \<exists>title organization t g.
        get_prop (flattened apiResults ! j) ''title'' = Inr title \<and> toString title = Inr t \<and>
        get_prop (flattened apiResults ! j) ''organization'' = Inr organization \<and>
        toString organization = Inr g \<and> keys ! j = t @ ''-'' @ g"
    using keys_nth [OF keys] oppKey_parts by blast
  have dropped: "j \<notin> set (firstOccurrences keys)"
    if "i < j" "j < length keys"
       "get_prop (flattened apiResults ! i) ''title'' =
          get_prop (flattened apiResults ! j) ''title''"
       "get_prop (flattened apiResults ! i) ''organization'' =
          get_prop (flattened apiResults ! j) ''organization''" for i j
  proof -
    have "oppKey (flattened apiResults ! i) = oppKey (flattened apiResults ! j)"
      using that(3,4) by (rule oppKey_same_pair)
    then have "keys ! i = keys ! j"
      using keys_nth [OF keys] that(1,2) by (metis Inr_inject less_trans)
    moreover have "keys ! i \<in> set (take j keys)"
      using that(1,2) by (metis in_set_conv_nth length_take min.absorb2 less_imp_le nth_take)
    ultimately show ?thesis
      using that(2) by (simp add: firstOccurrences_member)
  qed
  show ?thesis
    using keys result parts dropped firstOccurrences_member
    by (intro exI [of _ keys]) blast
qed

lemma oppKey_pantry1: "oppKey pantry1 = Inr ''Food drive-Mid-City Pantry''"
  by (simp add: oppKey_def pantry1_def)
lemma oppKey_pantry2: "oppKey pantry2 = Inr ''Food drive-Mid-City Pantry''"
  by (simp add: oppKey_def pantry2_def)
lemma oppKey_pantry3: "oppKey pantry3 = Inr ''Food drive-Mid-City Pantry''"
  by (simp add: oppKey_def pantry3_def)
lemma oppKey_tutoring: "oppKey tutoring = Inr ''Tutoring-Library''"
  by (simp add: oppKey_def tutoring_def)

lemma example_merge:
  "combineResults [Obj [(''opportunities'', Arr [pantry2, tutoring])],
                   Obj [(''opportunities'', Arr [pantry3])]] =
     Inr (Obj [(''opportunities'', Arr [pantry2, tutoring])])"
  by (simp add: combineResults_def oppKey_pantry2 oppKey_pantry3 oppKey_tutoring)


lemma pantry_titles:
  "get_prop pantry1 ''title'' = Inr (Str ''Food drive-Mid'')"
  "get_prop pantry2 ''title'' = Inr (Str ''Food drive'')"
  "get_prop pantry3 ''title'' = Inr (Str ''Food drive'')"
  "get_prop pantry2 ''organization'' = Inr (Str ''Mid-City Pantry'')"
  "get_prop pantry3 ''organization'' = Inr (Str ''Mid-City Pantry'')"
  by (simp_all add: pantry1_def pantry2_def pantry3_def)

lemma pantry_differ: "pantry2 \<noteq> pantry1"
  by (simp add: pantry1_def pantry2_def)

text \<open>
  The claim as stated fails: the second and third opportunity have the same title and
  organization, and the second, the first of the two in input order, is not kept, because
  the first opportunity has the same key string.
\<close>

theorem C1_counterexample:
  "combineResults [Obj [(''opportunities'', Arr [pantry1, pantry2])],
                   Obj [(''opportunities'', Arr [pantry3])]] =
     Inr (Obj [(''opportunities'', Arr [pantry1])]) \<and>
   get_prop pantry2 ''title'' = get_prop pantry3 ''title'' \<and>
   get_prop pantry2 ''organization'' = get_prop pantry3 ''organization'' \<and>
   get_prop pantry1 ''title'' \<noteq> get_prop pantry2 ''title'' \<and>
   pantry2 \<notin> set [pantry1]"
  by (simp add: combineResults_def oppKey_pantry1 oppKey_pantry2 oppKey_pantry3 pantry_titles pantry_differ)

theorem C1_combineResults_first_key_wins_witness:
  "combineResults [Obj [(''opportunities'', Arr [pantry2, tutoring])],
                   Obj [(''opportunities'', Arr [pantry3])]] =
     Inr (Obj [(''opportunities'', Arr [pantry2, tutoring])]) \<and>
   (\<exists>keys.
      map oppKey (flattened [Obj [(''opportunities'', Arr [pantry2, tutoring])],
                             Obj [(''opportunities'', Arr [pantry3])]]) = map Inr keys \<and>
      Obj [(''opportunities'', Arr [pantry2, tutoring])] =
        Obj [(''opportunities'',
              Arr (map ((!) (flattened [Obj [(''opportunities'', Arr [pantry2, tutoring])],
                                        Obj [(''opportunities'', Arr [pantry3])]]))
                       (firstOccurrences keys)))])"
proof -
  let ?results = "[Obj [(''opportunities'', Arr [pantry2, tutoring])],
                   Obj [(''opportunities'', Arr [pantry3])]]"
  let ?result = "Obj [(''opportunities'', Arr [pantry2, tutoring])]"
  have "\<exists>keys. map oppKey (flattened ?results) = map Inr keys \<and>
          ?result = Obj [(''opportunities'',
                          Arr (map ((!) (flattened ?results)) (firstOccurrences keys)))]"
    using C1_combineResults_first_key_wins [OF example_merge]
    by (elim exE conjE, intro exI conjI)
  then show ?thesis
    using example_merge by (rule conjI [rotated])
qed

subsection \<open>The store\<close>

lemma cell_at_old [simp]: "a < length s \<Longrightarrow> cell_at (s @ t) a = Some (s ! a)"
  by (simp add: cell_at_def nth_append)

lemma cell_at_new [simp]: "cell_at (s @ [c]) (length s) = Some c"
  by (simp add: cell_at_def)

lemma push_new: "push (s @ [Array combined]) (length s) opp = s @ [Array (combined @ [opp])]"
  by (simp add: push_def)

lemma visit_withStore:
  "visit (length s) opp (s @ [Array combined], seen) =
     withStore s (case oppKey opp of
                    Inl e \<Rightarrow> Inl e
                  | Inr key \<Rightarrow> if key \<notin> seen then Inr (combined @ [opp], insert key seen)
                               else Inr (combined, seen))"
  by (simp add: visit_def withStore_def push_new split: sum.splits)

lemma d_forEach_withStore:
  "d_forEach (length s) opps (s @ [Array combined], seen) =
     withStore s (addOpportunities opps (combined, seen))"
proof (induction opps arbitrary: combined seen)
  case Nil
  then show ?case by (simp add: withStore_def)
next
  case (Cons opp opps)
  show ?case
  proof (cases "oppKey opp")
    case (Inl e)
    then show ?thesis by (simp add: visit_withStore withStore_def)
  next
    case (Inr key)
    then show ?thesis
      by (cases "key \<in> seen") (simp_all add: visit_withStore withStore_def Cons.IH)
  qed
qed

lemma s_forEach_withStore:
  assumes "a < length s" and "s ! a = Array xs"
  shows "\<forall>k \<in> set ks. k < length xs \<Longrightarrow>
         s_forEach (length s) a ks (s @ [Array combined], seen) =
           withStore s (addOpportunities (map ((!) xs) ks) (combined, seen))"
proof (induction ks arbitrary: combined seen)
  case Nil
  then show ?case by (simp add: withStore_def)
next
  case (Cons k ks)
  then have k: "k < length xs" and ks: "\<forall>k \<in> set ks. k < length xs"
    by simp_all
  show ?case
  proof (cases "oppKey (xs ! k)")
    case (Inl e)
    then show ?thesis
      using assms k by (simp add: visit_withStore withStore_def)
  next
    case (Inr key)
    then show ?thesis
      using assms k
      by (cases "key \<in> seen") (simp_all add: visit_withStore withStore_def Cons.IH [OF ks])
  qed
qed

lemma s_addOpportunities_withStore:
  assumes "valid s w" and "s_truthy w"
  shows "s_addOpportunities (length s) w (s @ [Array combined], seen) =
           withStore s (case held s w of
                          Arr opps \<Rightarrow> addOpportunities opps (combined, seen)
                        | _ \<Rightarrow> Inl TypeError)"
proof (cases w)
  case (Data v)
  then show ?thesis
    by (cases v)
       (simp_all add: s_addOpportunities_def held_def withStore_def d_forEach_withStore)
next
  case (Ref b)
  with assms have b: "b < length s"
    by (simp add: valid_def)
  show ?thesis
  proof (cases "s ! b")
    case (Array ys)
    have "s_forEach (length s) b [0..<length ys] (s @ [Array combined], seen) =
            withStore s (addOpportunities (map ((!) ys) [0..<length ys]) (combined, seen))"
      using b Array by (intro s_forEach_withStore) simp_all
    then show ?thesis
      using b Array Ref by (simp add: s_addOpportunities_def held_def cell_at_def nth_append map_nth)
  next
    case (Object props)
    then show ?thesis
      using b Ref by (simp add: s_addOpportunities_def held_def cell_at_def nth_append withStore_def)
  qed
qed

lemma held_Data [simp]: "held s (Data v) = v"
  by (simp add: held_def)

lemma map_of_held:
  "map_of (map (\<lambda>(k, w). (k, held s w)) props) k = map_option (held s) (map_of props k)"
  by (induction props) auto

lemma well_formed_slot:
  assumes "well_formed s" and "a < length s" and "s ! a = Object props"
      and "map_of props k = Some w"
  shows "valid s w"
proof -
  from assms(2,3) have "Object props \<in> set s"
    by (metis nth_mem)
  moreover from assms(1)
  have "\<forall>c \<in> set s. case c of Array xs \<Rightarrow> True
                               | Object p \<Rightarrow> list_all (valid s \<circ> snd) p"
    unfolding well_formed_def by (simp only: list_all_iff [of _ s])
  ultimately have "case Object props of Array xs \<Rightarrow> True
                     | Object p \<Rightarrow> list_all (valid s \<circ> snd) p"
    by (rule bspec [rotated])
  then have "\<forall>x \<in> set props. valid s (snd x)"
    by (simp add: list_all_iff)
  moreover from assms(4) have "(k, w) \<in> set props"
    by (rule map_of_SomeD)
  ultimately have "valid s (snd (k, w))"
    by (rule bspec)
  then show ?thesis
    by simp
qed

lemma held_truthy: "s_truthy w = truthy (held s w)"
  by (cases w) (auto simp: held_def split: option.splits cell.splits)

lemma s_opportunities_deref:
  assumes "well_formed s" and "valid s r"
  shows "(\<exists>e. s_opportunities (s @ [Array combined]) r = Inl e \<and>
              get_prop (deref s r) ''opportunities'' = Inl e) \<or>
         (\<exists>w. s_opportunities (s @ [Array combined]) r = Inr w \<and> valid s w \<and>
              get_prop (deref s r) ''opportunities'' = Inr (held s w))"
proof (cases r)
  case (Data v)
  then show ?thesis
    by (cases "get_prop v ''opportunities''") (simp_all add: valid_def held_def)
next
  case (Ref a)
  with assms have a: "a < length s"
    by (simp add: valid_def)
  show ?thesis
  proof (cases "s ! a")
    case (Array xs)
    then show ?thesis
      using a Ref by (simp add: cell_at_def nth_append valid_def held_def)
  next
    case (Object props)
    show ?thesis
    proof (cases "map_of props ''opportunities''")
      case None
      then show ?thesis
        using a Ref Object by (simp add: cell_at_def nth_append valid_def map_of_held)
    next
      case (Some w)
      with well_formed_slot [OF assms(1) a Object] have "valid s w"
        by simp
      then show ?thesis
        using a Ref Object Some by (simp add: cell_at_def nth_append map_of_held)
    qed
  qed
qed

lemma s_addResults_withStore:
  assumes "well_formed s"
  shows "\<forall>r \<in> set results. valid s r \<Longrightarrow>
         s_addResults (length s) results (s @ [Array combined], seen) =
           withStore s (addResults (map (deref s) results) (combined, seen))"
proof (induction results arbitrary: combined seen)
  case Nil
  then show ?case by (simp add: withStore_def)
next
  case (Cons r results)
  then have r: "valid s r" and rest: "\<forall>r \<in> set results. valid s r"
    by simp_all
  note IH = Cons.IH [OF rest]
  from s_opportunities_deref [OF assms r, of combined] show ?case
  proof (elim disjE exE conjE)
    fix e
    assume "s_opportunities (s @ [Array combined]) r = Inl e"
       and "get_prop (deref s r) ''opportunities'' = Inl e"
    then show ?thesis by (simp add: withStore_def)
  next
    fix w
    assume w: "s_opportunities (s @ [Array combined]) r = Inr w" "valid s w"
       and g: "get_prop (deref s r) ''opportunities'' = Inr (held s w)"
    show ?thesis
    proof (cases "s_truthy w")
      case False
      then show ?thesis
        using w g IH by (simp add: held_truthy [of w s])
    next
      case True
      note inner = s_addOpportunities_withStore [OF w(2) True, of combined seen]
      show ?thesis
      proof (cases "held s w")
        case (Arr opps)
        show ?thesis
        proof (cases "addOpportunities opps (combined, seen)")
          case (Inl e)
          then show ?thesis
            using w g True inner Arr by (simp add: held_truthy [of w s] withStore_def)
        next
          case (Inr acc)
          obtain c1 s1 where acc: "acc = (c1, s1)"
            by (cases acc)
          show ?thesis
            using w g True inner Arr Inr acc IH
            by (simp add: held_truthy [of w s] withStore_def)
        qed
      qed (use w g True inner in \<open>simp_all add: held_truthy [of w s] withStore_def\<close>)
    qed
  qed
qed

lemma s_combineResults_value:
  assumes "well_formed s" and "\<forall>r \<in> set apiResults. valid s r"
  shows "s_combineResults s apiResults =
           (case addResults (map (deref s) apiResults) ([], {}) of
              Inl e \<Rightarrow> Inl e
            | Inr (combined, seen) \<Rightarrow>
                Inr (s @ [Array combined, Object [(''opportunities'', Ref (length s))]],
                     Ref (Suc (length s))))"
  using s_addResults_withStore [OF assms, of "[]" "{}"]
  by (simp add: s_combineResults_def withStore_def split: sum.splits prod.splits)

lemma held_append: "valid s w \<Longrightarrow> held (s @ t) w = held s w"
  by (cases w) (simp_all add: held_def valid_def cell_at_def nth_append)

lemma deref_append:
  assumes "well_formed s" and "valid s r"
  shows "deref (s @ t) r = deref s r"
proof (cases r)
  case (Data v)
  then show ?thesis by simp
next
  case (Ref a)
  with assms have a: "a < length s"
    by (simp add: valid_def)
  show ?thesis
  proof (cases "s ! a")
    case (Array xs)
    then show ?thesis
      using a Ref by (simp add: cell_at_def nth_append)
  next
    case (Object props)
    have "\<forall>x \<in> set props. held (s @ t) (snd x) = held s (snd x)"
    proof
      fix x assume x: "x \<in> set props"
      from a Object have "Object props \<in> set s"
        by (metis nth_mem)
      moreover from assms(1)
      have "\<forall>c \<in> set s. case c of Array xs \<Rightarrow> True
                                   | Object p \<Rightarrow> list_all (valid s \<circ> snd) p"
        unfolding well_formed_def by (simp only: list_all_iff [of _ s])
      ultimately have "case Object props of Array xs \<Rightarrow> True
                         | Object p \<Rightarrow> list_all (valid s \<circ> snd) p"
        by (rule bspec [rotated])
      with x have "valid s (snd x)"
        by (simp add: list_all_iff)
      then show "held (s @ t) (snd x) = held s (snd x)"
        by (rule held_append)
    qed
    then have "map (\<lambda>(k, w). (k, held (s @ t) w)) props = map (\<lambda>(k, w). (k, held s w)) props"
      by (auto simp: split_beta)
    then show ?thesis
      using a Ref Object by (simp add: cell_at_def nth_append)
  qed
qed

lemma firstOccurrences_sorted: "sorted_wrt (<) (firstOccurrences keys)"
  by (simp add: firstOccurrences_def sorted_wrt_filter)

lemma firstOccurrences_distinct:
  assumes "distinct keys"
  shows "firstOccurrences keys = [0..<length keys]"
proof -
  have "keys ! j \<notin> set (take j keys)" if "j < length keys" for j
  proof
    assume "keys ! j \<in> set (take j keys)"
    then obtain i where "i < j" "keys ! i = keys ! j"
      using that by (auto simp: in_set_conv_nth)
    with assms that show False
      by (auto simp: distinct_conv_nth)
  qed
  then show ?thesis
    by (simp add: firstOccurrences_def)
qed

text \<open>
  C7. On a well-formed store, when \<^verbatim>\<open>combineResults\<close> returns, the store it leaves is the
  store it was given followed by two new cells, the array \<^verbatim>\<open>combined\<close> and the returned
  object that refers to it: every given array and result object is unchanged, and the
  address of \<^verbatim>\<open>combined\<close> is not an address of the given store. \<^verbatim>\<open>combined\<close> holds the
  opportunities of the flattened sequence at increasing positions, those whose key does not
  occur earlier, so the order of the sources and the order within each source are kept; when
  no key occurs twice it is the flattened sequence itself.
\<close>

theorem C7_combineResults_flattens_into_new_array:
  assumes "well_formed s" and "\<forall>r \<in> set apiResults. valid s r"
      and "s_combineResults s apiResults = Inr (s', returned)"
  shows "\<exists>combined keys.
     s' = s @ [Array combined, Object [(''opportunities'', Ref (length s))]] \<and>
     returned = Ref (Suc (length s)) \<and>
     \<not> valid s (Ref (length s)) \<and>
     take (length s) s' = s \<and>
     (\<forall>r \<in> set apiResults. deref s' r = deref s r) \<and>
     map oppKey (flattened (map (deref s) apiResults)) = map Inr keys \<and>
     combined = map ((!) (flattened (map (deref s) apiResults))) (firstOccurrences keys) \<and>
     sorted_wrt (<) (firstOccurrences keys) \<and>
     (distinct keys \<longrightarrow> combined = flattened (map (deref s) apiResults)) \<and>
     combineResults (map (deref s) apiResults) = Inr (deref s' returned)"
proof -
  from assms(3) obtain combined seen where
    loops: "addResults (map (deref s) apiResults) ([], {}) = Inr (combined, seen)"
    and s': "s' = s @ [Array combined, Object [(''opportunities'', Ref (length s))]]"
    and returned: "returned = Ref (Suc (length s))"
    unfolding s_combineResults_value [OF assms(1,2)]
    by (auto split: sum.splits)
  have merged: "combineResults (map (deref s) apiResults) =
                 Inr (Obj [(''opportunities'', Arr combined)])"
    using loops by (simp add: combineResults_def)
  from combineResults_positions [OF merged] obtain keys where
    keys: "map oppKey (flattened (map (deref s) apiResults)) = map Inr keys"
    and combined: "combined =
          map ((!) (flattened (map (deref s) apiResults))) (firstOccurrences keys)"
    by auto
  have len: "length keys = length (flattened (map (deref s) apiResults))"
    using keys by (metis length_map)
  have all: "combined = flattened (map (deref s) apiResults)" if "distinct keys"
    using firstOccurrences_distinct [OF that] combined len by (simp add: map_nth)
  have same: "\<forall>r \<in> set apiResults. deref s' r = deref s r"
    using assms(1,2) by (simp add: s' deref_append)
  have "deref s' returned = Obj [(''opportunities'', Arr combined)]"
    by (simp add: s' returned cell_at_def held_def nth_append)
  with merged have link: "combineResults (map (deref s) apiResults) = Inr (deref s' returned)"
    by simp
  have fresh: "\<not> valid s (Ref (length s))"
    by (simp add: valid_def)
  have prefix: "take (length s) s' = s"
    by (simp add: s')
  show ?thesis
    using s' returned fresh prefix same keys combined firstOccurrences_sorted all link
    by (intro exI [of _ combined] exI [of _ keys] conjI impI)
qed

lemma exampleStore_well_formed: "well_formed exampleStore"
  by (simp add: well_formed_def exampleStore_def valid_def)

lemma exampleStore_valid: "\<forall>r \<in> set [Ref 1, Ref 3]. valid exampleStore r"
  by (simp add: valid_def exampleStore_def)

lemma exampleStore_deref:
  "map (deref exampleStore) [Ref 1, Ref 3] =
     [Obj [(''opportunities'', Arr [pantry2, tutoring])],
      Obj [(''opportunities'', Arr [pantry3])]]"
  by (simp add: exampleStore_def cell_at_def held_def)

lemma exampleStore_run:
  "s_combineResults exampleStore [Ref 1, Ref 3] =
     Inr (exampleStore @ [Array [pantry2, tutoring], Object [(''opportunities'', Ref 4)]],
          Ref 5)"
proof -
  have loops: "addResults (map (deref exampleStore) [Ref 1, Ref 3]) ([], {}) =
          Inr ([pantry2, tutoring], {''Food drive-Mid-City Pantry'', ''Tutoring-Library''})"
    unfolding exampleStore_deref
    by (simp add: oppKey_pantry2 oppKey_pantry3 oppKey_tutoring insert_commute)
  have len: "length exampleStore = 4"
    by (simp add: exampleStore_def)
  show ?thesis
    unfolding s_combineResults_value [OF exampleStore_well_formed exampleStore_valid] loops
    by (simp add: len)
qed

theorem C7_combineResults_flattens_into_new_array_witness:
  "well_formed exampleStore \<and>
   valid exampleStore (Ref 1) \<and> valid exampleStore (Ref 3) \<and>
   s_combineResults exampleStore [Ref 1, Ref 3] =
     Inr (exampleStore @ [Array [pantry2, tutoring], Object [(''opportunities'', Ref 4)]],
          Ref 5) \<and>
   take (length exampleStore)
     (exampleStore @ [Array [pantry2, tutoring], Object [(''opportunities'', Ref 4)]]) =
     exampleStore \<and>
   combineResults (map (deref exampleStore) [Ref 1, Ref 3]) =
     Inr (deref (exampleStore @ [Array [pantry2, tutoring],
                                 Object [(''opportunities'', Ref 4)]]) (Ref 5))"
proof -
  let ?s' = "exampleStore @ [Array [pantry2, tutoring], Object [(''opportunities'', Ref 4)]]"
  have "take (length exampleStore) ?s' = exampleStore \<and>
        combineResults (map (deref exampleStore) [Ref 1, Ref 3]) = Inr (deref ?s' (Ref 5))"
    using C7_combineResults_flattens_into_new_array
            [OF exampleStore_well_formed exampleStore_valid exampleStore_run]
    by (elim exE conjE, intro conjI)
  moreover have "valid exampleStore (Ref 1) \<and> valid exampleStore (Ref 3)"
    using exampleStore_valid by simp
  ultimately show ?thesis
    using exampleStore_well_formed exampleStore_run
    by (elim conjE, intro conjI)
qed

subsection \<open>The serialisation can be read back\<close>

lemma below_ten:
  assumes "d < (10::nat)"
  obtains "d = 0" | "d = 1" | "d = 2" | "d = 3" | "d = 4"
        | "d = 5" | "d = 6" | "d = 7" | "d = 8" | "d = 9"
  using assms by atomize_elim arith

lemma digit_char_digit: "d < 10 \<Longrightarrow> is_digit (digit_char d)"
  by (erule below_ten) (simp_all add: is_digit_def digit_char_def)

lemma digit_val_digit_char: "d < 10 \<Longrightarrow> digit_val (digit_char d) = d"
  by (erule below_ten) (simp_all add: digit_val_def digit_char_def)

lemma dec_digits: "list_all is_digit (dec n) \<and> dec n \<noteq> []"
proof (induction n rule: dec.induct)
  case (1 n)
  show ?case
  proof (cases "n < 10")
    case True
    then show ?thesis
      by (subst (1 2) dec.simps) (simp add: digit_char_digit)
  next
    case False
    with 1 show ?thesis
      by (subst (1 2) dec.simps) (simp add: digit_char_digit)
  qed
qed

lemma undec_dec: "undec (dec n) = n"
proof (induction n rule: dec.induct)
  case (1 n)
  show ?case
  proof (cases "n < 10")
    case True
    then show ?thesis
      by (subst dec.simps) (simp add: undec_def digit_val_digit_char)
  next
    case False
    with 1 have "undec (dec (n div 10)) = n div 10"
      by simp
    with False show ?thesis
      by (subst dec.simps) (simp add: undec_def digit_val_digit_char)
  qed
qed

lemma dec_inj: "dec n = dec m \<Longrightarrow> n = m"
  by (metis undec_dec)

lemma minus_no_digit: "\<not> is_digit CHR ''-''"
  by (simp add: is_digit_def)

lemma show_int_inj: "show_int a = show_int b \<Longrightarrow> a = b"
proof -
  assume eq: "show_int a = show_int b"
  have first: "is_digit (hd (dec n))" for n
    using dec_digits [of n] by (cases "dec n") auto
  show ?thesis
  proof (cases "a < 0"; cases "b < 0")
    assume "a < 0" "b < 0"
    with eq have "nat (- a) = nat (- b)"
      by (simp add: show_int_def dec_inj)
    with \<open>a < 0\<close> \<open>b < 0\<close> show ?thesis by simp
  next
    assume "a < 0" "\<not> b < 0"
    with eq have "CHR ''-'' # dec (nat (- a)) = dec (nat b)"
      by (simp add: show_int_def)
    then have "hd (dec (nat b)) = CHR ''-''"
      by (metis list.sel(1))
    with first [of "nat b"] minus_no_digit show ?thesis by simp
  next
    assume "\<not> a < 0" "b < 0"
    with eq have "dec (nat a) = CHR ''-'' # dec (nat (- b))"
      by (simp add: show_int_def)
    then have "hd (dec (nat a)) = CHR ''-''"
      by (metis list.sel(1))
    with first [of "nat a"] minus_no_digit show ?thesis by simp
  next
    assume "\<not> a < 0" "\<not> b < 0"
    with eq have "nat a = nat b"
      by (simp add: show_int_def dec_inj)
    with \<open>\<not> a < 0\<close> \<open>\<not> b < 0\<close> show ?thesis by simp
  qed
qed


lemma digits_split:
  "list_all is_digit xs \<Longrightarrow> list_all is_digit ys \<Longrightarrow> xs @ r = ys @ r' \<Longrightarrow>
   delimited r \<Longrightarrow> delimited r' \<Longrightarrow> xs = ys \<and> r = r'"
proof (induction xs arbitrary: ys)
  case Nil
  then show ?case
    by (cases ys) (auto simp: delimited_def)
next
  case (Cons x xs)
  show ?case
  proof (cases ys)
    case Nil
    with Cons.prems show ?thesis
      by (auto simp: delimited_def)
  next
    case (Cons y ys')
    with Cons.prems Cons.IH [of ys'] show ?thesis
      by auto
  qed
qed

lemma show_int_split:
  assumes "show_int a @ r = show_int b @ r'" and "delimited r" and "delimited r'"
  shows "a = b \<and> r = r'"
proof -
  have digits: "list_all is_digit (dec n)" for n
    using dec_digits by blast
  have first: "\<exists>c cs. dec n = c # cs \<and> is_digit c" for n
    using dec_digits [of n] by (cases "dec n") auto
  have "show_int a = show_int b \<and> r = r'"
  proof (cases "a < 0"; cases "b < 0")
    assume "a < 0" "b < 0"
    with assms digits_split [OF digits digits, of "nat (- a)" r "nat (- b)" r']
    show ?thesis by (simp add: show_int_def)
  next
    assume "a < 0" "\<not> b < 0"
    with assms first [of "nat b"] minus_no_digit show ?thesis
      by (auto simp: show_int_def)
  next
    assume "\<not> a < 0" "b < 0"
    with assms first [of "nat a"] minus_no_digit show ?thesis
      by (auto simp: show_int_def)
  next
    assume "\<not> a < 0" "\<not> b < 0"
    with assms digits_split [OF digits digits, of "nat a" r "nat b" r']
    show ?thesis by (simp add: show_int_def)
  qed
  then show ?thesis
    using show_int_inj by blast
qed

lemma hex_char_inj: "d < 16 \<Longrightarrow> e < 16 \<Longrightarrow> hex_char d = hex_char e \<Longrightarrow> d = e"
  by (simp add: hex_char_def nth_eq_iff_index_eq)

lemma hex_pair:
  assumes "(of_char c :: nat) < 32" and "(of_char c' :: nat) < 32"
      and "hex_char ((of_char c :: nat) div 16) = hex_char ((of_char c' :: nat) div 16)"
      and "hex_char ((of_char c :: nat) mod 16) = hex_char ((of_char c' :: nat) mod 16)"
  shows "c = c'"
proof -
  have "(of_char c :: nat) div 16 = (of_char c' :: nat) div 16"
    using assms(1,2) by (intro hex_char_inj [OF _ _ assms(3)]) simp_all
  moreover have "(of_char c :: nat) mod 16 = (of_char c' :: nat) mod 16"
    by (intro hex_char_inj [OF _ _ assms(4)]) simp_all
  ultimately have "(of_char c :: nat) = of_char c'"
    by (metis div_mult_mod_eq)
  then show ?thesis
    by simp
qed

lemma escape_char_split:
  "escape_char c @ x = escape_char c' @ x' \<Longrightarrow> c = c' \<and> x = x'"
  unfolding escape_char_def
  by (auto split: if_splits dest: hex_pair)

lemma escape_char_no_quote: "escape_char c @ x \<noteq> CHR 0x22 # y"
  unfolding escape_char_def by (auto split: if_splits)

lemma body_split:
  "concat (map escape_char s) @ CHR 0x22 # r = concat (map escape_char s') @ CHR 0x22 # r' \<Longrightarrow>
   s = s' \<and> r = r'"
proof (induction s arbitrary: s')
  case Nil
  then show ?case
    using escape_char_no_quote by (cases s') (auto dest: sym)
next
  case (Cons c s)
  show ?case
  proof (cases s')
    case Nil
    with Cons.prems show ?thesis
      using escape_char_no_quote by auto
  next
    case (Cons c' t)
    with Cons.prems have
      "escape_char c @ (concat (map escape_char s) @ CHR 0x22 # r) =
       escape_char c' @ (concat (map escape_char t) @ CHR 0x22 # r')"
      by simp
    from escape_char_split [OF this] Cons.IH [of t] Cons show ?thesis
      by simp
  qed
qed

lemma quote_split: "quote s @ r = quote s' @ r' \<Longrightarrow> s = s' \<and> r = r'"
  using body_split [of s r s' r'] by (simp add: quote_def)


lemma stringify_elems_map: "stringify_elems xs = map elemText xs"
  by (induction xs) (simp_all add: elemText_def)

lemma stringify_json_data: "json_data v \<Longrightarrow> stringify v = Some (elemText v)"
  by (cases v) (simp_all add: elemText_def)

lemma stringify_props_map:
  "json_props kvs \<Longrightarrow>
   stringify_props kvs = map (\<lambda>(k, v). quote k @ CHR '':'' # elemText v) kvs"
  by (induction kvs) (auto simp: stringify_json_data)

lemma elemText_simps:
  "elemText Null = ''null''"
  "elemText (Bool b) = (if b then ''true'' else ''false'')"
  "elemText (Num n) = show_int n"
  "elemText (Str s) = quote s"
  "elemText (Arr xs) = CHR ''['' # commas (map elemText xs) @ '']''"
  "json_props kvs \<Longrightarrow>
     elemText (Obj kvs) =
       CHR ''{'' # commas (map (\<lambda>(k, v). quote k @ CHR '':'' # elemText v) kvs) @ ''}''"
  by (simp_all add: elemText_def stringify_elems_map stringify_props_map)

lemma commas_Cons:
  "commas (s # ss) @ z = s @ (if ss = [] then z else CHR '','' # commas ss @ z)"
  by (cases ss) simp_all

lemma show_int_first: "\<exists>c cs. show_int n = c # cs \<and> (c = CHR ''-'' \<or> is_digit c)"
proof -
  have "\<exists>c cs. dec m = c # cs \<and> is_digit c" for m
    using dec_digits [of m] by (cases "dec m") auto
  from this [of "nat n"] this [of "nat (- n)"] show ?thesis
    by (cases "n < 0") (auto simp: show_int_def)
qed

text \<open>The first character of the text of a value tells what kind of value it is.\<close>

lemma elemText_first:
  assumes "json_data v"
  shows "\<exists>c cs. elemText v = c # cs \<and> kind_of_char c = kind v"
proof (cases v)
  case (Num n)
  from show_int_first [of n] obtain c cs where
    "show_int n = c # cs" "c = CHR ''-'' \<or> is_digit c"
    by blast
  then have "show_int n = c # cs \<and> kind_of_char c = 3"
    by (auto simp: is_digit_def kind_of_char_def)
  with Num show ?thesis
    by (simp add: elemText_simps)
next
  case (Obj kvs)
  with assms show ?thesis
    by (simp add: elemText_simps kind_of_char_def)
qed (use assms in \<open>simp_all add: elemText_simps quote_def kind_of_char_def\<close>)

lemma same_kind:
  assumes "json_data v" and "json_data v'" and "elemText v @ r = elemText v' @ r'"
  shows "kind v = kind v'"
proof -
  from elemText_first [OF assms(1)] obtain c cs where
    c: "elemText v = c # cs" "kind_of_char c = kind v"
    by blast
  from elemText_first [OF assms(2)] obtain c' cs' where
    c': "elemText v' = c' # cs'" "kind_of_char c' = kind v'"
    by blast
  from assms(3) c(1) c'(1) have "c = c'"
    by simp
  with c(2) c'(2) show ?thesis
    by simp
qed

lemma kind_cases:
  "kind v' = 1 \<Longrightarrow> v' = Null"
  "kind v' = 2 \<Longrightarrow> \<exists>b. v' = Bool b"
  "kind v' = 3 \<Longrightarrow> \<exists>n. v' = Num n"
  "kind v' = 4 \<Longrightarrow> \<exists>s. v' = Str s"
  "kind v' = 5 \<Longrightarrow> \<exists>xs. v' = Arr xs"
  "kind v' = 6 \<Longrightarrow> \<exists>kvs. v' = Obj kvs"
  by (cases v'; simp)+

lemma commas_split:
  fixes f :: "'a \<Rightarrow> string"
  assumes first: "\<And>y. ok y \<Longrightarrow> \<exists>c cs. f y = c # cs \<and> c \<noteq> close"
      and close: "\<not> is_digit close" "close \<noteq> CHR '',''"
  shows "(\<And>x y r r'. x \<in> set xs \<Longrightarrow> ok y \<Longrightarrow> f x @ r = f y @ r' \<Longrightarrow>
             delimited r \<Longrightarrow> delimited r' \<Longrightarrow> x = y \<and> r = r') \<Longrightarrow>
         \<forall>x \<in> set xs. ok x \<Longrightarrow> \<forall>y \<in> set ys. ok y \<Longrightarrow>
         commas (map f xs) @ close # r = commas (map f ys) @ close # r' \<Longrightarrow>
         xs = ys \<and> r = r'"
proof (induction xs arbitrary: ys)
  case Nil
  show ?case
  proof (cases ys)
    case Nil
    with Nil.prems show ?thesis by simp
  next
    case (Cons y ys')
    with Nil.prems have "ok y" by simp
    from first [OF this] obtain c cs where "f y = c # cs" "c \<noteq> close"
      by blast
    with Nil.prems(4) Cons show ?thesis
      by (simp add: commas_Cons)
  qed
next
  case (Cons x xs)
  from Cons.prems(2) have "ok x" by simp
  from first [OF this] obtain c cs where fx: "f x = c # cs" "c \<noteq> close"
    by blast
  show ?case
  proof (cases ys)
    case Nil
    with Cons.prems(4) fx show ?thesis
      by (simp add: commas_Cons)
  next
    case ys: (Cons y ys')
    let ?R = "if map f xs = [] then close # r else CHR '','' # commas (map f xs) @ close # r"
    let ?R' = "if map f ys' = [] then close # r' else CHR '','' # commas (map f ys') @ close # r'"
    from Cons.prems(4) have eq: "f x @ ?R = f y @ ?R'"
      by (simp add: ys commas_Cons)
    have d: "delimited ?R" "delimited ?R'"
      using close by (simp_all add: delimited_def is_digit_def)
    from Cons.prems(3) have "ok y" by (simp add: ys)
    from Cons.prems(1) [OF _ this eq d] have xy: "x = y" and R: "?R = ?R'"
      by simp_all
    show ?thesis
    proof (cases "xs = []"; cases "ys' = []")
      assume "xs = []" "ys' = []"
      with R xy ys show ?thesis by simp
    next
      assume "xs = []" "ys' \<noteq> []"
      with R close show ?thesis by simp
    next
      assume "xs \<noteq> []" "ys' = []"
      with R close show ?thesis by simp
    next
      assume "xs \<noteq> []" "ys' \<noteq> []"
      with R have "commas (map f xs) @ close # r = commas (map f ys') @ close # r'"
        by simp
      moreover have "xa = ya \<and> ra = ra'"
        if "xa \<in> set xs" "ok ya" "f xa @ ra = f ya @ ra'" "delimited ra" "delimited ra'"
        for xa ya ra ra'
        using Cons.prems(1) [OF _ that(2-5)] that(1) by simp
      moreover have "\<forall>x \<in> set xs. ok x" "\<forall>y \<in> set ys'. ok y"
        using Cons.prems(2,3) by (simp_all add: ys)
      ultimately have "xs = ys' \<and> r = r'"
        by (rule Cons.IH [of ys', rotated 3])
      with xy ys show ?thesis by simp
    qed
  qed
qed

lemma json_elems_iff: "json_elems xs = (\<forall>x \<in> set xs. json_data x)"
  by (induction xs) simp_all

lemma json_props_iff: "json_props kvs = (\<forall>kv \<in> set kvs. json_data (snd kv))"
  by (induction kvs) auto

lemma elemText_split:
  "json_data v \<Longrightarrow> json_data v' \<Longrightarrow> elemText v @ r = elemText v' @ r' \<Longrightarrow>
   delimited r \<Longrightarrow> delimited r' \<Longrightarrow> v = v' \<and> r = r'"
proof (induction v arbitrary: v' r r')
  case Undefined
  then show ?case by simp
next
  case Null
  from same_kind [OF Null.prems(1-3)] have "v' = Null"
    by (simp add: kind_cases)
  with Null.prems(3) show ?case
    by (simp add: elemText_simps)
next
  case (Bool b)
  from same_kind [OF Bool.prems(1-3)] obtain b' where "v' = Bool b'"
    using kind_cases(2) [of v'] by auto
  with Bool.prems(3) show ?case
    by (auto simp: elemText_simps split: if_splits)
next
  case (Num n)
  from same_kind [OF Num.prems(1-3)] obtain n' where "v' = Num n'"
    using kind_cases(3) [of v'] by auto
  with Num.prems show ?case
    using show_int_split [of n r n' r'] by (simp add: elemText_simps)
next
  case (Str s)
  from same_kind [OF Str.prems(1-3)] obtain s' where "v' = Str s'"
    using kind_cases(4) [of v'] by auto
  with Str.prems show ?case
    using quote_split [of s r s' r'] by (simp add: elemText_simps)
next
  case (Arr xs)
  from same_kind [OF Arr.prems(1-3)] obtain xs' where v': "v' = Arr xs'"
    using kind_cases(5) [of v'] by auto
  have first: "\<exists>c cs. elemText y = c # cs \<and> c \<noteq> CHR '']''" if "json_data y" for y
  proof -
    from elemText_first [OF that] obtain c cs where
      c: "elemText y = c # cs" "kind_of_char c = kind y"
      by blast
    have "kind_of_char CHR '']'' = 3"
      by (simp add: kind_of_char_def)
    moreover have "kind y \<noteq> 3 \<or> c \<noteq> CHR '']''"
    proof (cases "kind y = 3")
      case True
      then obtain n where "y = Num n"
        using kind_cases(3) by blast
      with c(1) show ?thesis
        using show_int_first [of n] by (auto simp: elemText_simps is_digit_def)
    qed simp
    ultimately show ?thesis
      using c by auto
  qed
  have "xs = xs' \<and> r = r'"
  proof (rule commas_split [where f = elemText and ok = json_data and close = "CHR '']''"])
    show "\<exists>c cs. elemText y = c # cs \<and> c \<noteq> CHR '']''" if "json_data y" for y
      using that by (rule first)
    show "\<not> is_digit CHR '']''" "CHR '']'' \<noteq> CHR '',''"
      by (simp_all add: is_digit_def)
    show "x = y \<and> r = r'"
      if "x \<in> set xs" "json_data y" "elemText x @ r = elemText y @ r'"
         "delimited r" "delimited r'" for x y r r'
      using Arr.IH [OF that(1) _ that(2-5)] Arr.prems(1) that(1)
      by (simp add: json_elems_iff)
    show "\<forall>x \<in> set xs. json_data x" "\<forall>y \<in> set xs'. json_data y"
      using Arr.prems(1,2) by (simp_all add: v' json_elems_iff)
    show "commas (map elemText xs) @ CHR '']'' # r = commas (map elemText xs') @ CHR '']'' # r'"
      using Arr.prems(3) by (simp add: v' elemText_simps)
  qed
  then show ?case by (simp add: v')
next
  case (Obj kvs)
  from same_kind [OF Obj.prems(1-3)] obtain kvs' where v': "v' = Obj kvs'"
    using kind_cases(6) [of v'] by auto
  let ?f = "\<lambda>(k, v). quote k @ CHR '':'' # elemText v"
  have props: "json_props kvs" "json_props kvs'"
    using Obj.prems(1,2) by (simp_all add: v')
  have "kvs = kvs' \<and> r = r'"
  proof (rule commas_split [where f = ?f and ok = "\<lambda>kv. json_data (snd kv)"
                              and close = "CHR ''}''"])
    show "\<exists>c cs. ?f y = c # cs \<and> c \<noteq> CHR ''}''" for y
      by (cases y) (simp add: quote_def)
    show "\<not> is_digit CHR ''}''" "CHR ''}'' \<noteq> CHR '',''"
      by (simp_all add: is_digit_def)
    show "x = y \<and> r = r'"
      if "x \<in> set kvs" "json_data (snd y)" "?f x @ r = ?f y @ r'"
         "delimited r" "delimited r'" for x y r r'
    proof -
      obtain k w where x: "x = (k, w)" by (cases x)
      obtain k' w' where y: "y = (k', w')" by (cases y)
      from that(3) have "quote k @ (CHR '':'' # elemText w @ r) =
                         quote k' @ (CHR '':'' # elemText w' @ r')"
        by (simp add: x y)
      from quote_split [OF this] have k: "k = k'" and e: "elemText w @ r = elemText w' @ r'"
        by simp_all
      have "json_data w"
        using props(1) that(1) by (auto simp: json_props_iff x)
      from Obj.IH [of x w, OF that(1) _ this _ e that(4,5)] that(2) k show ?thesis
        by (simp add: x y)
    qed
    show "\<forall>x \<in> set kvs. json_data (snd x)" "\<forall>y \<in> set kvs'. json_data (snd y)"
      using props by (simp_all add: json_props_iff)
    show "commas (map ?f kvs) @ CHR ''}'' # r = commas (map ?f kvs') @ CHR ''}'' # r'"
      using Obj.prems(3) props by (simp add: v' elemText_simps)
  qed
  then show ?case by (simp add: v')
qed

lemma stringify_inj:
  "json_data v \<Longrightarrow> json_data v' \<Longrightarrow> stringify v = stringify v' \<Longrightarrow> v = v'"
  using elemText_split [of v v' "[]" "[]"]
  by (simp add: stringify_json_data delimited_def)

subsection \<open>Where a serialised object starts\<close>

lemma top_plain:
  "1 \<le> d \<Longrightarrow> c \<notin> set [CHR ''{'', CHR ''['', CHR ''}'', CHR '']'', CHR 0x22, CHR 0x5C] \<Longrightarrow>
   top Outside d (c # cs) = top Outside d cs"
  by simp

lemma top_plain_chars:
  "1 \<le> d \<Longrightarrow> \<forall>c \<in> set s. c \<notin> set [CHR ''{'', CHR ''['', CHR ''}'', CHR '']'', CHR 0x22, CHR 0x5C] \<Longrightarrow>
   top Outside d (s @ t) = top Outside d t"
  by (induction s) simp_all

lemma digit_plain:
  "is_digit c \<Longrightarrow> c \<notin> set [CHR ''{'', CHR ''['', CHR ''}'', CHR '']'', CHR 0x22, CHR 0x5C]"
  by (auto simp: is_digit_def)

lemma show_int_plain:
  "\<forall>c \<in> set (show_int n). c \<notin> set [CHR ''{'', CHR ''['', CHR ''}'', CHR '']'', CHR 0x22, CHR 0x5C]"
proof -
  have "\<forall>c \<in> set (dec m). is_digit c" for m
    using dec_digits [of m] by (simp add: list_all_iff)
  then have "\<forall>c \<in> set (dec m).
      c \<notin> set [CHR ''{'', CHR ''['', CHR ''}'', CHR '']'', CHR 0x22, CHR 0x5C]" for m
    using digit_plain by blast
  from this [of "nat n"] this [of "nat (- n)"] show ?thesis
    by (cases "n < 0") (simp_all add: show_int_def)
qed

lemma hex_char_inside: "d < 16 \<Longrightarrow> hex_char d \<noteq> CHR 0x5C \<and> hex_char d \<noteq> CHR 0x22"
proof -
  assume "d < 16"
  then have "hex_char d \<in> set ''0123456789abcdef''"
    by (simp add: hex_char_def del: set_simps)
  then show ?thesis
    by auto
qed

lemma top_escape_char: "top Inside d (escape_char c @ t) = top Inside d t"
proof -
  have "hex_char ((of_char c :: nat) div 16) \<noteq> CHR 0x5C \<and>
        hex_char ((of_char c :: nat) div 16) \<noteq> CHR 0x22"
    if "(of_char c :: nat) < 32"
    using that by (intro hex_char_inside) simp
  moreover have "hex_char ((of_char c :: nat) mod 16) \<noteq> CHR 0x5C \<and>
                 hex_char ((of_char c :: nat) mod 16) \<noteq> CHR 0x22"
    by (intro hex_char_inside) simp
  ultimately show ?thesis
    by (simp add: escape_char_def)
qed

lemma top_quote: "1 \<le> d \<Longrightarrow> top Outside d (quote s @ t) = top Outside d t"
proof -
  assume d: "1 \<le> d"
  have "top Inside d (concat (map escape_char s) @ CHR 0x22 # t) = top Outside d t"
    by (induction s) (simp_all add: top_escape_char)
  with d show ?thesis
    by (simp add: quote_def)
qed

lemma top_commas:
  assumes "1 \<le> d" and "\<And>x t. x \<in> set xs \<Longrightarrow> top Outside d (f x @ t) = top Outside d t"
  shows "top Outside d (commas (map f xs) @ t) = top Outside d t"
  using assms(2)
proof (induction xs)
  case Nil
  then show ?case by simp
next
  case (Cons x xs)
  then show ?case
    using assms(1) by (cases xs) (simp_all add: commas_Cons)
qed

lemma top_elemText:
  "json_data v \<Longrightarrow> 1 \<le> d \<Longrightarrow> top Outside d (elemText v @ t) = top Outside d t"
proof (induction v arbitrary: d t)
  case Undefined
  then show ?case by simp
next
  case Null
  then show ?case by (simp add: elemText_simps)
next
  case (Bool b)
  then show ?case by (simp add: elemText_simps)
next
  case (Num n)
  then show ?case
    using top_plain_chars [OF Num.prems(2) show_int_plain] by (simp add: elemText_simps)
next
  case (Str s)
  then show ?case by (simp add: elemText_simps top_quote)
next
  case (Arr xs)
  have "top Outside (Suc d) (commas (map elemText xs) @ CHR '']'' # t) =
          top Outside (Suc d) (CHR '']'' # t)"
    using Arr.IH Arr.prems(1) by (intro top_commas) (simp_all add: json_elems_iff)
  with Arr.prems(2) show ?case
    by (simp add: elemText_simps)
next
  case (Obj kvs)
  let ?f = "\<lambda>(k, v). quote k @ CHR '':'' # elemText v"
  have props: "json_props kvs"
    using Obj.prems(1) by simp
  have member: "top Outside (Suc d) (?f x @ u) = top Outside (Suc d) u" if "x \<in> set kvs" for x u
  proof -
    obtain k w where x: "x = (k, w)" by (cases x)
    have "json_data w"
      using props that by (auto simp: json_props_iff x)
    from Obj.IH [of x w, OF that _ this, of "Suc d" u] show ?thesis
      by (simp add: x top_quote)
  qed
  have "top Outside (Suc d) (commas (map ?f kvs) @ CHR ''}'' # t) =
          top Outside (Suc d) (CHR ''}'' # t)"
    by (intro top_commas member) simp_all
  with Obj.prems(2) props show ?case
    by (simp add: elemText_simps)
qed

lemma top_object:
  assumes "json_props kvs"
  shows "\<exists>rest. elemText (Obj kvs) = CHR ''{'' # rest \<and> top Outside 1 rest"
proof -
  let ?f = "\<lambda>(k, v). quote k @ CHR '':'' # elemText v"
  have member: "top Outside 1 (?f x @ u) = top Outside 1 u" if "x \<in> set kvs" for x u
  proof -
    obtain k w where x: "x = (k, w)" by (cases x)
    have "json_data w"
      using assms that by (auto simp: json_props_iff x)
    then show ?thesis
      by (simp add: x top_quote top_elemText)
  qed
  have "top Outside 1 (commas (map ?f kvs) @ ''}'') = top Outside 1 ''}''"
    by (intro top_commas member) simp_all
  with assms show ?thesis
    by (simp add: elemText_simps)
qed

lemma top_same_mode: "top m d t \<Longrightarrow> top m d' t \<Longrightarrow> d = d'"
proof (induction t arbitrary: m d d')
  case Nil
  then show ?case by simp
next
  case (Cons c cs)
  show ?case
  proof (cases m)
    case Outside
    with Cons.prems Cons.IH [of Outside "Suc d" "Suc d'"] Cons.IH [of Inside d d']
         Cons.IH [of Outside "d - 1" "d' - 1"] Cons.IH [of Outside d d']
    show ?thesis
      by (auto split: if_splits)
  next
    case Inside
    with Cons.prems Cons.IH [of Escaped d d'] Cons.IH [of Outside d d'] Cons.IH [of Inside d d']
    show ?thesis
      by (auto split: if_splits)
  next
    case Escaped
    with Cons.prems Cons.IH [of Inside d d'] show ?thesis
      by auto
  qed
qed

lemma top_out_of_phase: "top Outside d t \<Longrightarrow> top Inside d' t \<Longrightarrow> False"
proof (induction t arbitrary: d d')
  case Nil
  then show ?case by simp
next
  case (Cons c cs)
  with Cons.IH [of "Suc d" d'] Cons.IH [of d' d] Cons.IH [of "d - 1" d'] Cons.IH [of d d']
  show ?case
    by (auto split: if_splits)
qed

lemma top_suffix:
  "top m d (p @ t) \<Longrightarrow> t \<noteq> [] \<Longrightarrow> 1 \<le> d \<Longrightarrow> \<exists>m' d'. top m' d' t \<and> 1 \<le> d'"
proof (induction p arbitrary: m d)
  case Nil
  then show ?case by auto
next
  case (Cons c p)
  show ?case
  proof (cases m)
    case Outside
    with Cons.prems Cons.IH [of Outside "Suc d"] Cons.IH [of Inside d]
         Cons.IH [of Outside "d - 1"] Cons.IH [of Outside d]
    show ?thesis
      by (auto split: if_splits)
  next
    case Inside
    with Cons.prems Cons.IH [of Escaped d] Cons.IH [of Outside d] Cons.IH [of Inside d]
    show ?thesis
      by (auto split: if_splits)
  next
    case Escaped
    with Cons.prems Cons.IH [of Inside d] show ?thesis
      by auto
  qed
qed

lemma object_not_suffix:
  assumes "json_props kvs1" and "json_props kvs2"
      and "elemText (Obj kvs1) = p @ elemText (Obj kvs2)"
  shows "p = []"
proof (rule ccontr)
  assume p: "p \<noteq> []"
  from top_object [OF assms(1)] obtain rest1 where
    r1: "elemText (Obj kvs1) = CHR ''{'' # rest1" "top Outside 1 rest1"
    by blast
  from top_object [OF assms(2)] obtain rest2 where
    r2: "elemText (Obj kvs2) = CHR ''{'' # rest2" "top Outside 1 rest2"
    by blast
  from p assms(3) r1(1) obtain p' where p': "p = CHR ''{'' # p'"
    by (cases p) auto
  with assms(3) r1 r2(1) have "top Outside 1 (p' @ CHR ''{'' # rest2)"
    by simp
  from top_suffix [OF this] obtain m d where md: "top m d (CHR ''{'' # rest2)" "1 \<le> d"
    by auto
  show False
  proof (cases m)
    case Outside
    with md(1) have "top Outside (Suc d) rest2"
      by simp
    from top_same_mode [OF this r2(2)] md(2) show False
      by simp
  next
    case Inside
    with md(1) have "top Inside d rest2"
      by simp
    from top_out_of_phase [OF r2(2) this] show False .
  next
    case Escaped
    with md(1) show False
      by simp
  qed
qed

lemma plainOptions_object:
  assumes "plainOptions options"
  obtains kvs where "default_arg options = Obj kvs" "json_props kvs"
  using assms by (cases options) (auto simp: plainOptions_def default_arg_def)

lemma cacheKey_json_data:
  "json_data (default_arg options) \<Longrightarrow>
   cacheKey url options = url @ elemText (default_arg options)"
  by (simp add: cacheKey_def stringify_json_data)

lemma cacheKey_plain_inj:
  assumes "plainOptions o1" and "plainOptions o2"
  shows "(cacheKey url1 o1 = cacheKey url2 o2) = (url1 = url2 \<and> default_arg o1 = default_arg o2)"
proof
  assume "url1 = url2 \<and> default_arg o1 = default_arg o2"
  then show "cacheKey url1 o1 = cacheKey url2 o2"
    by (simp add: cacheKey_def)
next
  assume eq: "cacheKey url1 o1 = cacheKey url2 o2"
  from assms(1) obtain kvs1 where o1: "default_arg o1 = Obj kvs1" "json_props kvs1"
    by (rule plainOptions_object)
  from assms(2) obtain kvs2 where o2: "default_arg o2 = Obj kvs2" "json_props kvs2"
    by (rule plainOptions_object)
  from eq have texts: "url1 @ elemText (Obj kvs1) = url2 @ elemText (Obj kvs2)"
    using o1 o2 by (simp add: cacheKey_json_data)
  have "\<exists>p. url1 = url2 @ p \<and> p @ elemText (Obj kvs1) = elemText (Obj kvs2) \<or>
            url1 @ p = url2 \<and> elemText (Obj kvs1) = p @ elemText (Obj kvs2)"
    using texts by (simp only: append_eq_append_conv2)
  then obtain p where
    p: "url1 = url2 @ p \<and> p @ elemText (Obj kvs1) = elemText (Obj kvs2) \<or>
        url1 @ p = url2 \<and> elemText (Obj kvs1) = p @ elemText (Obj kvs2)"
    by (rule exE)
  have urls: "url1 = url2"
  proof (rule disjE [OF p])
    assume a: "url1 = url2 @ p \<and> p @ elemText (Obj kvs1) = elemText (Obj kvs2)"
    then have "elemText (Obj kvs2) = p @ elemText (Obj kvs1)"
      by simp
    from object_not_suffix [OF o2(2) o1(2) this] a show ?thesis
      by simp
  next
    assume a: "url1 @ p = url2 \<and> elemText (Obj kvs1) = p @ elemText (Obj kvs2)"
    then have "elemText (Obj kvs1) = p @ elemText (Obj kvs2)"
      by simp
    from object_not_suffix [OF o1(2) o2(2) this] a show ?thesis
      by simp
  qed
  with texts have "elemText (Obj kvs1) = elemText (Obj kvs2)"
    by simp
  moreover have jd: "json_data (Obj kvs1)" "json_data (Obj kvs2)"
    using o1(2) o2(2) by simp_all
  ultimately have "stringify (Obj kvs1) = stringify (Obj kvs2)"
    by (simp only: stringify_json_data)
  with jd have "Obj kvs1 = Obj kvs2"
    by (rule stringify_inj)
  with urls o1(1) o2(1) show "url1 = url2 \<and> default_arg o1 = default_arg o2"
    by simp
qed

subsection \<open>Cache keys\<close>

lemma stringify_defined: "v \<noteq> Undefined \<Longrightarrow> \<exists>s. stringify v = Some s"
  by (cases v) auto

lemma cacheKey_stringify:
  "\<exists>s. stringify (default_arg options) = Some s \<and> cacheKey url options = url @ s"
proof -
  have "default_arg options \<noteq> Undefined"
    by (simp add: default_arg_def)
  then obtain s where "stringify (default_arg options) = Some s"
    using stringify_defined by blast
  then show ?thesis
    by (simp add: cacheKey_def)
qed

lemma cacheKey_same_url:
  "(cacheKey url o1 = cacheKey url o2) =
     (stringify (default_arg o1) = stringify (default_arg o2))"
proof -
  obtain s1 where s1: "stringify (default_arg o1) = Some s1" "cacheKey url o1 = url @ s1"
    using cacheKey_stringify by blast
  obtain s2 where s2: "stringify (default_arg o2) = Some s2" "cacheKey url o2 = url @ s2"
    using cacheKey_stringify by blast
  show ?thesis
    by (simp add: s1 s2)
qed

lemma makeAPICall_other_key:
  assumes "cacheKey url1 o1 \<noteq> cacheKey url2 o2"
  shows "fst (makeAPICall env (st\<lparr>cache := (cache st)(cacheKey url1 o1 \<mapsto> entry)\<rparr>) url2 o2) =
         fst (makeAPICall env st url2 o2)"
  using assms
  by (auto simp: makeAPICall_def Let_def
           split: option.splits sum.splits fetch_result.splits)

lemma makeAPICall_same_key:
  assumes "cacheKey url1 o1 = cacheKey url2 o2"
      and "now_check env - timestamp entry < cacheTimeout"
  shows "fst (makeAPICall env (st\<lparr>cache := (cache st)(cacheKey url1 o1 \<mapsto> entry)\<rparr>) url2 o2) =
         Inr (data entry)"
  using assms by (simp add: makeAPICall_def Let_def)

lemma example_keys:
  "cacheKey ''u'' (Obj [(''headers'', Obj [(''X-API-Key'', Undefined)])]) =
     ''u{'' @ quote ''headers'' @ '':{}}''"
  "cacheKey ''u'' (Obj [(''headers'', Obj [])]) = ''u{'' @ quote ''headers'' @ '':{}}''"
  "cacheKey ''v'' (Obj [(''headers'', Obj [])]) = ''v{'' @ quote ''headers'' @ '':{}}''"
  by (simp_all add: cacheKey_def default_arg_def)

text \<open>
  C4, as amended. For options that are left out or are plain objects made, to any depth, of
  \<^verbatim>\<open>null\<close>, booleans, safe integers, strings, arrays and plain objects (so \<^verbatim>\<open>undefined\<close> does
  not occur in them), two invocations have the same cache key exactly when they have the same
  URL and the same options, options that are left out counting as the empty object. The key
  of any invocation is its URL followed by the serialisation of its options; an entry stored
  under the key of one invocation does not change what an invocation with another key
  returns, and while it is live it is what an invocation with the same key returns.
\<close>

theorem C4_distinct_requests_distinct_keys:
  "(plainOptions o1 \<and> plainOptions o2 \<longrightarrow>
      (cacheKey url1 o1 = cacheKey url2 o2) =
        (url1 = url2 \<and> default_arg o1 = default_arg o2)) \<and>
   (\<exists>s. stringify (default_arg o1) = Some s \<and> cacheKey url1 o1 = url1 @ s) \<and>
   (cacheKey url1 o1 \<noteq> cacheKey url2 o2 \<longrightarrow>
      fst (makeAPICall env (st\<lparr>cache := (cache st)(cacheKey url1 o1 \<mapsto> entry)\<rparr>) url2 o2) =
      fst (makeAPICall env st url2 o2)) \<and>
   (cacheKey url1 o1 = cacheKey url2 o2 \<and> now_check env - timestamp entry < cacheTimeout \<longrightarrow>
      fst (makeAPICall env (st\<lparr>cache := (cache st)(cacheKey url1 o1 \<mapsto> entry)\<rparr>) url2 o2) =
      Inr (data entry))"
proof (intro conjI impI)
  assume "plainOptions o1 \<and> plainOptions o2"
  then show "(cacheKey url1 o1 = cacheKey url2 o2) =
               (url1 = url2 \<and> default_arg o1 = default_arg o2)"
    using cacheKey_plain_inj by blast
next
  show "\<exists>s. stringify (default_arg o1) = Some s \<and> cacheKey url1 o1 = url1 @ s"
    by (rule cacheKey_stringify)
next
  assume "cacheKey url1 o1 \<noteq> cacheKey url2 o2"
  then show "fst (makeAPICall env (st\<lparr>cache := (cache st)(cacheKey url1 o1 \<mapsto> entry)\<rparr>)
                    url2 o2) = fst (makeAPICall env st url2 o2)"
    by (rule makeAPICall_other_key)
next
  assume "cacheKey url1 o1 = cacheKey url2 o2 \<and> now_check env - timestamp entry < cacheTimeout"
  then show "fst (makeAPICall env (st\<lparr>cache := (cache st)(cacheKey url1 o1 \<mapsto> entry)\<rparr>)
                    url2 o2) = Inr (data entry)"
    using makeAPICall_same_key by blast
qed

theorem C4_distinct_requests_distinct_keys_witness:
  "plainOptions (Obj [(''headers'', Obj [(''X-API-Key'', Str ''k'')])]) \<and>
   plainOptions Undefined \<and>
   cacheKey ''u'' (Obj [(''headers'', Obj [(''X-API-Key'', Str ''k'')])]) \<noteq>
     cacheKey ''u'' Undefined \<and>
   fst (makeAPICall failing
          (emptyState\<lparr>cache := (cache emptyState)
             (cacheKey ''u'' (Obj [(''headers'', Obj [(''X-API-Key'', Str ''k'')])]) \<mapsto>
                \<lparr>data = Str ''one'', timestamp = 0\<rparr>)\<rparr>)
          ''u'' Undefined) =
   fst (makeAPICall failing emptyState ''u'' Undefined)"
proof -
  let ?o1 = "Obj [(''headers'', Obj [(''X-API-Key'', Str ''k'')])]"
  note t = C4_distinct_requests_distinct_keys
             [of ?o1 Undefined "''u''" "''u''" failing emptyState
                 "\<lparr>data = Str ''one'', timestamp = 0\<rparr>"]
  have plain: "plainOptions ?o1 \<and> plainOptions Undefined"
    by (simp add: plainOptions_def)
  have "default_arg ?o1 \<noteq> default_arg Undefined"
    by (simp add: default_arg_def)
  with t [THEN conjunct1, THEN mp, OF plain]
  have differ: "cacheKey ''u'' ?o1 \<noteq> cacheKey ''u'' Undefined"
    by simp
  from t [THEN conjunct2, THEN conjunct2, THEN conjunct1, THEN mp, OF differ]
  have "fst (makeAPICall failing
          (emptyState\<lparr>cache := (cache emptyState)
             (cacheKey ''u'' ?o1 \<mapsto> \<lparr>data = Str ''one'', timestamp = 0\<rparr>)\<rparr>)
          ''u'' Undefined) =
        fst (makeAPICall failing emptyState ''u'' Undefined)" .
  with plain differ show ?thesis
    by (elim conjE, intro conjI)
qed

text \<open>
  The claim as stated fails. With no JustServe key configured, the options of
  \<^verbatim>\<open>searchJustServe\<close> carry the header \<^verbatim>\<open>X-API-Key: undefined\<close>; they differ from the
  options with no header at all and have the same key, so a call with the latter returns
  the payload that was cached for the former.
\<close>

theorem C4_counterexample:
  "justServeOptions exampleConfig = Obj [(''headers'', Obj [(''X-API-Key'', Undefined)])] \<and>
   justServeOptions exampleConfig \<noteq> Obj [(''headers'', Obj [])] \<and>
   cacheKey ''u'' (justServeOptions exampleConfig) = cacheKey ''u'' (Obj [(''headers'', Obj [])]) \<and>
   fst (makeAPICall (answering 1000 (Str ''two''))
          (snd (makeAPICall (answering 0 (Str ''one'')) emptyState ''u''
                  (justServeOptions exampleConfig)))
          ''u'' (Obj [(''headers'', Obj [])])) = Inr (Str ''one'')"
proof -
  have o: "justServeOptions exampleConfig = Obj [(''headers'', Obj [(''X-API-Key'', Undefined)])]"
    by (simp add: justServeOptions_def exampleConfig_def fromEnv_def)
  have first: "snd (makeAPICall (answering 0 (Str ''one'')) emptyState ''u''
                  (Obj [(''headers'', Obj [(''X-API-Key'', Undefined)])])) =
      \<lparr>cache = [''u{'' @ quote ''headers'' @ '':{}}'' \<mapsto> \<lparr>data = Str ''one'', timestamp = 150\<rparr>],
       fetchLog = [''u'']\<rparr>"
    by (simp add: makeAPICall_def example_keys answering_def emptyState_def default_arg_def
                  response_ok_def)
  have second: "fst (makeAPICall (answering 1000 (Str ''two''))
      \<lparr>cache = [''u{'' @ quote ''headers'' @ '':{}}'' \<mapsto> \<lparr>data = Str ''one'', timestamp = 150\<rparr>],
       fetchLog = [''u'']\<rparr> ''u'' (Obj [(''headers'', Obj [])])) = Inr (Str ''one'')"
    by (simp add: makeAPICall_def example_keys answering_def cacheTimeout_def)
  show ?thesis
    unfolding o first second
    by (simp add: example_keys)
qed

end
